theory Spec2Isabelle
  imports Complex_Main "HOL-Library.Word"
begin

section \<open>Evaluation counters: shared cells on a heap\<close>

text \<open>
  The counters of \<^verbatim>\<open>functions.hpp\<close> are \<^verbatim>\<open>std::shared_ptr<size_t>\<close>: a pointer that is
  either empty or names a cell which every copy of the pointer shares. The cells live in
  an explicit store, a list indexed by address; \<^verbatim>\<open>std::make_shared<size_t>(0)\<close> appends a
  new cell. A cell is never freed in the model (a shared cell lives as long as a pointer
  to it does, and nothing observes deallocation). \<^verbatim>\<open>size_t\<close> is the 64-bit unsigned
  integer of an LP64 platform, so \<^verbatim>\<open>++\<close> wraps around at \<open>2 ^ 64\<close>.
\<close>

type_synonym size_t = "64 word"

type_synonym heap = "size_t list"

type_synonym counter_ptr = "nat option"

text \<open>
  A failed \<^verbatim>\<open>assert\<close> aborts the program; the assertions are compiled in (a build
  without \<^verbatim>\<open>NDEBUG\<close>). \<open>InvalidConfiguration\<close> is the failure the specification names
  for a configuration value outside its range.
\<close>

datatype error = Assertion_Failure | InvalidConfiguration

text \<open>\<^verbatim>\<open>std::make_shared<size_t>(v)\<close>: the address of the new cell and the grown heap.\<close>

definition make_shared :: "size_t \<Rightarrow> heap \<Rightarrow> nat \<times> heap" where
  "make_shared v h = (length h, h @ [v])"

text \<open>The statement \<^verbatim>\<open>if (_counter) ++(*_counter);\<close> of every evaluation method.\<close>

definition incr :: "counter_ptr \<Rightarrow> heap \<Rightarrow> heap" where
  "incr p h = (case p of None \<Rightarrow> h | Some a \<Rightarrow> h[a := h ! a + 1])"

text \<open>\<^verbatim>\<open>assert(_counter); return *_counter;\<close>\<close>

definition read_counter :: "counter_ptr \<Rightarrow> heap \<Rightarrow> error + size_t" where
  "read_counter p h = (case p of None \<Rightarrow> Inl Assertion_Failure | Some a \<Rightarrow> Inr (h ! a))"

section \<open>Function\<close>

text \<open>
  \<^verbatim>\<open>Function<DOMAIN_TYPE, CODOMAIN_TYPE>::Interface\<close> has the one virtual method
  \<^verbatim>\<open>f(x, y)\<close>, which writes its result into the out-parameter \<^verbatim>\<open>y\<close>; the model returns
  the value written. An implementation is \<^verbatim>\<open>const\<close> and shared by every copy of the
  wrapper, so it is a value of the model. A \<^verbatim>\<open>Function\<close> holds the implementation and the
  counter pointer; copying a \<^verbatim>\<open>Function\<close> copies both pointers, which is the copy of the
  record. (A default-constructed \<^verbatim>\<open>Function\<close> has no implementation and must not be
  evaluated; the model has only wrappers that hold one.)
\<close>

record ('d, 'c) Interface =
  Interface_f :: "'d \<Rightarrow> 'c"

record ('d, 'c) Function =
  pimpl :: "('d, 'c) Interface"
  f_counter_ptr :: counter_ptr

text \<open>The constructor from a callable \<^verbatim>\<open>lambda(domain) -> codomain\<close>; no counter yet.\<close>

definition Function_of :: "('d \<Rightarrow> 'c) \<Rightarrow> ('d, 'c) Function" where
  "Function_of g = \<lparr>pimpl = \<lparr>Interface_f = g\<rparr>, f_counter_ptr = None\<rparr>"

definition Function_f :: "('d, 'c) Function \<Rightarrow> 'd \<Rightarrow> heap \<Rightarrow> 'c \<times> heap" where
  "Function_f F x h =
     (let h1 = incr (f_counter_ptr F) h
      in (Interface_f (pimpl F) x, h1))"

definition Function_initialize_counter ::
  "('d, 'c) Function \<Rightarrow> heap \<Rightarrow> ('d, 'c) Function \<times> heap" where
  "Function_initialize_counter F h =
     (let (a, h1) = make_shared 0 h
      in (F\<lparr>f_counter_ptr := Some a\<rparr>, h1))"

definition Function_f_counter :: "('d, 'c) Function \<Rightarrow> heap \<Rightarrow> error + size_t" where
  "Function_f_counter F h = read_counter (f_counter_ptr F) h"

text \<open>The helper \<^verbatim>\<open>eval_f(func, x)\<close>.\<close>

definition eval_f :: "('d, 'c) Function \<Rightarrow> 'd \<Rightarrow> heap \<Rightarrow> 'c \<times> heap" where
  "eval_f func x h = Function_f func x h"

section \<open>Differentiable Function\<close>

text \<open>
  \<^verbatim>\<open>Diff_Interface\<close> extends \<^verbatim>\<open>Function::Interface\<close> with \<^verbatim>\<open>f_df\<close> and \<^verbatim>\<open>df\<close>. The fields
  of \<^verbatim>\<open>Differentiable_Function\<close> are \<^verbatim>\<open>_pimpl\<close>, \<^verbatim>\<open>_f_counter\<close> and \<^verbatim>\<open>_df_counter\<close>; its
  methods carry the prefix \<open>DF\<close> in the model.
\<close>

record ('d, 'c, 'g) Diff_Interface =
  Diff_f :: "'d \<Rightarrow> 'c"
  Diff_f_df :: "'d \<Rightarrow> 'c \<times> 'g"
  Diff_df :: "'d \<Rightarrow> 'g"

record ('d, 'c, 'g) Differentiable_Function =
  d_pimpl :: "('d, 'c, 'g) Diff_Interface"
  d_f_counter_ptr :: counter_ptr
  d_df_counter_ptr :: counter_ptr

text \<open>
  The constructor from a callable \<^verbatim>\<open>lambda(domain, codomain*, differential*)\<close>. A null
  pointer asks the callable to skip that output: the callable is given, for each output,
  whether it is wanted, and returns what it wrote. \<^verbatim>\<open>Impl::f\<close> calls
  \<^verbatim>\<open>_f(x, &y, nullptr)\<close>, \<^verbatim>\<open>Impl::f_df\<close> calls \<^verbatim>\<open>_f(x, &y, &df)\<close> and \<^verbatim>\<open>Impl::df\<close> calls
  \<^verbatim>\<open>_f(x, nullptr, &df)\<close>. An output the callable was asked for and did not write stays
  uninitialised in the caller (\<open>the None\<close>).
\<close>

type_synonym ('d, 'c, 'g) callable = "'d \<Rightarrow> bool \<Rightarrow> bool \<Rightarrow> 'c option \<times> 'g option"

definition Impl :: "('d, 'c, 'g) callable \<Rightarrow> ('d, 'c, 'g) Diff_Interface" where
  "Impl g =
     \<lparr>Diff_f = (\<lambda>x. the (fst (g x True False))),
      Diff_f_df = (\<lambda>x. (the (fst (g x True True)), the (snd (g x True True)))),
      Diff_df = (\<lambda>x. the (snd (g x False True)))\<rparr>"

definition Differentiable_Function_of ::
  "('d, 'c, 'g) callable \<Rightarrow> ('d, 'c, 'g) Differentiable_Function" where
  "Differentiable_Function_of g =
     \<lparr>d_pimpl = Impl g, d_f_counter_ptr = None, d_df_counter_ptr = None\<rparr>"

text \<open>
  \<^verbatim>\<open>operator function_type() const { return {_pimpl, _f_counter}; }\<close>: the implementation
  seen through its base interface, and the same value-counter pointer.
  \<^verbatim>\<open>as_function\<close> is the \<^verbatim>\<open>static_cast\<close> through that operator.
\<close>

definition to_function_type ::
  "('d, 'c, 'g) Differentiable_Function \<Rightarrow> ('d, 'c) Function" where
  "to_function_type D =
     \<lparr>pimpl = \<lparr>Interface_f = Diff_f (d_pimpl D)\<rparr>, f_counter_ptr = d_f_counter_ptr D\<rparr>"

definition as_function ::
  "('d, 'c, 'g) Differentiable_Function \<Rightarrow> ('d, 'c) Function" where
  "as_function D = to_function_type D"

definition DF_f :: "('d, 'c, 'g) Differentiable_Function \<Rightarrow> 'd \<Rightarrow> heap \<Rightarrow> 'c \<times> heap" where
  "DF_f D x h =
     (let h1 = incr (d_f_counter_ptr D) h
      in (Diff_f (d_pimpl D) x, h1))"

definition DF_f_df ::
  "('d, 'c, 'g) Differentiable_Function \<Rightarrow> 'd \<Rightarrow> heap \<Rightarrow> ('c \<times> 'g) \<times> heap" where
  "DF_f_df D x h =
     (let h1 = incr (d_f_counter_ptr D) h;
          h2 = incr (d_df_counter_ptr D) h1
      in (Diff_f_df (d_pimpl D) x, h2))"

definition DF_df :: "('d, 'c, 'g) Differentiable_Function \<Rightarrow> 'd \<Rightarrow> heap \<Rightarrow> 'g \<times> heap" where
  "DF_df D x h =
     (let h1 = incr (d_df_counter_ptr D) h
      in (Diff_df (d_pimpl D) x, h1))"

definition DF_initialize_counter ::
  "('d, 'c, 'g) Differentiable_Function \<Rightarrow> heap
     \<Rightarrow> ('d, 'c, 'g) Differentiable_Function \<times> heap" where
  "DF_initialize_counter D h =
     (let (a, h1) = make_shared 0 h;
          (b, h2) = make_shared 0 h1
      in (D\<lparr>d_f_counter_ptr := Some a, d_df_counter_ptr := Some b\<rparr>, h2))"

definition DF_f_counter ::
  "('d, 'c, 'g) Differentiable_Function \<Rightarrow> heap \<Rightarrow> error + size_t" where
  "DF_f_counter D h = read_counter (d_f_counter_ptr D) h"

definition DF_df_counter ::
  "('d, 'c, 'g) Differentiable_Function \<Rightarrow> heap \<Rightarrow> error + size_t" where
  "DF_df_counter D h = read_counter (d_df_counter_ptr D) h"

text \<open>The helper \<^verbatim>\<open>eval_f\<close> on a differentiable function.\<close>

definition DF_eval_f ::
  "('d, 'c, 'g) Differentiable_Function \<Rightarrow> 'd \<Rightarrow> heap \<Rightarrow> 'c \<times> heap" where
  "DF_eval_f func x h = DF_f func x h"

section \<open>Configuration values\<close>












text \<open>
  \<^verbatim>\<open>Adam_Configuration\<close>, holding the values of its named fields (each already built).
\<close>

record 'a Adam_Configuration =
  maximimum_iterations :: size_t
  alpha_schedule :: "size_t \<Rightarrow> 'a"
  beta_1 :: 'a
  beta_2 :: 'a
  absolute_epsilon :: 'a
  verbose :: bool
  internal_epsilon :: 'a

section \<open>Scalars, \<^verbatim>\<open>cmath\<close> and \<^verbatim>\<open>valarray\<close>\<close>

text \<open>
  The solvers compute with \<^verbatim>\<open>double\<close>. The model is polymorphic in the scalar type and
  uses only its operations (\<open>+\<close>, \<open>-\<close>, \<open>*\<close>, \<open>/\<close>, \<open>\<bar>_\<bar>\<close>, \<open><\<close>, \<open>0\<close>, \<open>1\<close>) through type
  classes that assume no law of them, so what is proved of the solvers holds for any
  arithmetic, rounded or exact. \<^verbatim>\<open>std::sqrt\<close> and \<^verbatim>\<open>std::pow\<close> (called with the exponents
  \<^verbatim>\<open>2\<close> and \<^verbatim>\<open>k\<close>, non-negative integers) are parameters.
\<close>

record 'a cmath =
  c_sqrt :: "'a \<Rightarrow> 'a"
  c_pow :: "'a \<Rightarrow> nat \<Rightarrow> 'a"

text \<open>
  \<^verbatim>\<open>std::valarray\<close> and its element-wise operators: scalar \<^verbatim>\<open>*\<close> array, array \<^verbatim>\<open>+\<close>,
  \<^verbatim>\<open>-\<close>, \<^verbatim>\<open>*\<close>, \<^verbatim>\<open>/\<close> array, \<^verbatim>\<open>sqrt\<close> of an array, array \<^verbatim>\<open>+\<close> scalar. The operands of a
  binary operator have the same size in a defined run; on lists of different lengths the
  model stops at the shorter.
\<close>

type_synonym 'a valarray = "'a list"

definition scale :: "'a::times \<Rightarrow> 'a valarray \<Rightarrow> 'a valarray" where
  "scale c v = map (\<lambda>a. c * a) v"

definition vadd :: "'a::plus valarray \<Rightarrow> 'a valarray \<Rightarrow> 'a valarray" where
  "vadd u v = map2 (+) u v"

definition vsub :: "'a::minus valarray \<Rightarrow> 'a valarray \<Rightarrow> 'a valarray" where
  "vsub u v = map2 (-) u v"

definition vmul :: "'a::times valarray \<Rightarrow> 'a valarray \<Rightarrow> 'a valarray" where
  "vmul u v = map2 (*) u v"

definition vdiv :: "'a::inverse valarray \<Rightarrow> 'a valarray \<Rightarrow> 'a valarray" where
  "vdiv u v = map2 (/) u v"

definition vsqrt :: "'a cmath \<Rightarrow> 'a valarray \<Rightarrow> 'a valarray" where
  "vsqrt M v = map (c_sqrt M) v"

definition vadd_scalar :: "'a::plus valarray \<Rightarrow> 'a \<Rightarrow> 'a valarray" where
  "vadd_scalar v c = map (\<lambda>a. a + c) v"

text \<open>
  \<^verbatim>\<open>squared_norm_2\<close> adds \<^verbatim>\<open>pow(abs(v[i]), 2)\<close> to \<^verbatim>\<open>sum\<close> for \<^verbatim>\<open>i = 0 .. n - 1\<close>;
  \<^verbatim>\<open>norm_2\<close> is its square root.
\<close>

definition squared_norm_2 :: "'a::{zero,plus,abs} cmath \<Rightarrow> 'a valarray \<Rightarrow> 'a" where
  "squared_norm_2 M v = foldl (\<lambda>sum a. sum + c_pow M \<bar>a\<bar> 2) 0 v"

definition norm_2 :: "'a::{zero,plus,abs} cmath \<Rightarrow> 'a valarray \<Rightarrow> 'a" where
  "norm_2 M v = c_sqrt M (squared_norm_2 M v)"

section \<open>The state of a solver run\<close>

text \<open>
  A solver mutates the caller's iterate in place, latches \<^verbatim>\<open>has_converged\<close>, evaluates the
  objective (which acts on the heap of counters) and writes lines to \<^verbatim>\<open>std::cerr\<close>. A run
  is a function of a state with these four components; the lines written are kept as a
  list of the values printed.
\<close>

record ('x, 'o) solver_state =
  iterate :: 'x
  has_converged :: bool
  counters :: heap
  cerr :: "'o list"

section \<open>Adam\<close>

text \<open>
  The state of \<^verbatim>\<open>Adam_optimize\<close> adds the moment vectors \<^verbatim>\<open>m_k\<close> and \<^verbatim>\<open>v_k\<close>. The field
  \<open>updates\<close> is not a variable of the program: it counts the executions of the update
  block (the statements after \<^verbatim>\<open>if (has_converged) break;\<close>).
\<close>

record 'a Adam_state = "('a valarray, size_t \<times> 'a \<times> 'a) solver_state" +
  m_k :: "'a valarray"
  v_k :: "'a valarray"
  updates :: nat

text \<open>
  The body of the \<^verbatim>\<open>for\<close> loop at iteration index \<open>k\<close>. A line is written to \<^verbatim>\<open>std::cerr\<close>
  when the run has converged, or when \<^verbatim>\<open>verbose\<close> is set and \<^verbatim>\<open>k % 10 == 1\<close>; writing it
  evaluates the objective with \<^verbatim>\<open>eval_f\<close>. The body ends with \<^verbatim>\<open>has_converged\<close> set when the
  loop is to \<^verbatim>\<open>break\<close>. The expressions keep the grouping of the C++ operators:
  \<^verbatim>\<open>(1 - beta_2) * grad * grad\<close> is \<^verbatim>\<open>((1 - beta_2) * grad) * grad\<close>, and
  \<^verbatim>\<open>alpha_schedule(k) * hat_m_k / (...)\<close> is \<^verbatim>\<open>(alpha_schedule(k) * hat_m_k) / (...)\<close>.
\<close>

definition Adam_iteration ::
  "'a::{zero,one,plus,minus,times,inverse,abs,ord} cmath \<Rightarrow> 'a Adam_Configuration
     \<Rightarrow> ('a valarray, 'a, 'a valarray) Differentiable_Function
     \<Rightarrow> size_t \<Rightarrow> 'a Adam_state \<Rightarrow> 'a Adam_state" where
  "Adam_iteration M configuration objective_function k s =
     (let (grad, h1) = DF_df objective_function (iterate s) (counters s);
          grad_norm = norm_2 M grad;
          converged = grad_norm < absolute_epsilon configuration;
          (h2, out) =
            (if converged \<or> (verbose configuration \<and> k mod 10 = 1)
             then (let (y, h) = DF_eval_f objective_function (iterate s) h1
                   in (h, cerr s @ [(k, y, grad_norm)]))
             else (h1, cerr s))
      in if converged
         then s\<lparr>has_converged := True, counters := h2, cerr := out\<rparr>
         else
           (let m = vadd (scale (beta_1 configuration) (m_k s))
                         (scale (1 - beta_1 configuration) grad);
                v = vadd (scale (beta_2 configuration) (v_k s))
                         (vmul (scale (1 - beta_2 configuration) grad) grad);
                hat_m_k = scale (1 / (1 - c_pow M (beta_1 configuration) (unat k))) m;
                hat_v_k = scale (1 / (1 - c_pow M (beta_2 configuration) (unat k))) v;
                x1 = vsub (iterate s)
                       (vdiv (scale (alpha_schedule configuration k) hat_m_k)
                             (vadd_scalar (vsqrt M hat_v_k) (internal_epsilon configuration)))
            in s\<lparr>iterate := x1, has_converged := False, counters := h2, cerr := out,
                 m_k := m, v_k := v, updates := Suc (updates s)\<rparr>))"

text \<open>
  \<^verbatim>\<open>for (size_t k = 1; k < configuration.maximimum_iterations.value(); ++k)\<close>. The index
  is below the bound inside the loop, so \<^verbatim>\<open>++k\<close> never wraps and the loop terminates.
\<close>

function Adam_loop ::
  "'a::{zero,one,plus,minus,times,inverse,abs,ord} cmath \<Rightarrow> 'a Adam_Configuration
     \<Rightarrow> ('a valarray, 'a, 'a valarray) Differentiable_Function
     \<Rightarrow> size_t \<Rightarrow> 'a Adam_state \<Rightarrow> 'a Adam_state" where
  "Adam_loop M configuration objective_function k s =
     (if k < maximimum_iterations configuration
      then (let s1 = Adam_iteration M configuration objective_function k s
            in if has_converged s1 then s1
               else Adam_loop M configuration objective_function (k + 1) s1)
      else s)"
  by pat_completeness auto
termination
proof (relation "measure (\<lambda>(M, configuration, F, k, s).
                    unat (maximimum_iterations configuration) - unat k)")
  show "wf (measure (\<lambda>(M, configuration :: 'a Adam_Configuration, F, k, s).
                    unat (maximimum_iterations configuration) - unat k))"
    by simp
next
  fix M :: "'a cmath" and configuration :: "'a Adam_Configuration" and F k s s1
  assume "k < maximimum_iterations configuration"
  then have "unat k < unat (maximimum_iterations configuration)"
    and "unat (k + 1) = Suc (unat k)"
    by unat_arith+
  then show "((M, configuration, F, k + 1, s1), (M, configuration, F, k, s))
      \<in> measure (\<lambda>(M, configuration, F, k, s).
                    unat (maximimum_iterations configuration) - unat k)"
    by simp
qed

declare Adam_loop.simps [simp del]

text \<open>
  \<^verbatim>\<open>Adam_optimize(configuration, objective_function, x_init)\<close>: the moment vectors are
  created with the size of \<^verbatim>\<open>x_init\<close> and set to zero, the loop starts at \<^verbatim>\<open>k = 1\<close>. The
  result holds the returned flag and the caller's \<^verbatim>\<open>x_init\<close> as the run leaves it.
\<close>

definition Adam_optimize ::
  "'a::{zero,one,plus,minus,times,inverse,abs,ord} cmath \<Rightarrow> 'a Adam_Configuration
     \<Rightarrow> ('a valarray, 'a, 'a valarray) Differentiable_Function
     \<Rightarrow> 'a valarray \<Rightarrow> heap \<Rightarrow> 'a Adam_state" where
  "Adam_optimize M configuration objective_function x_init h =
     (let domain_size = length x_init
      in Adam_loop M configuration objective_function 1
           \<lparr>iterate = x_init, has_converged = False, counters = h, cerr = [],
            m_k = replicate domain_size 0, v_k = replicate domain_size 0, updates = 0\<rparr>)"

section \<open>Newton and Steffensen\<close>

text \<open>
  A line of \<^verbatim>\<open>show_iteration(iter, x, f)\<close> is the triple of its arguments.
\<close>

type_synonym 'a root_state = "('a, size_t \<times> 'a \<times> 'a) solver_state"

text \<open>
  The body of Newton's loop. \<^verbatim>\<open>-f / df\<close> is \<^verbatim>\<open>(-f) / df\<close>; the division is not guarded.
\<close>

definition Newton_iteration ::
  "('a, 'a, 'a) Differentiable_Function \<Rightarrow> 'a::{plus,uminus,inverse,abs,ord}
     \<Rightarrow> size_t \<Rightarrow> 'a root_state \<Rightarrow> 'a root_state" where
  "Newton_iteration f_obj epsilon iter s =
     (let ((f, df), h1) = DF_f_df f_obj (iterate s) (counters s);
          delta_x = - f / df;
          converged = \<bar>delta_x\<bar> < epsilon;
          x1 = iterate s + delta_x
      in \<lparr>iterate = x1, has_converged = converged, counters = h1,
          cerr = cerr s @ [(iter, x1, f)]\<rparr>)"

text \<open>
  \<^verbatim>\<open>for (size_t iter = 1; iter <= max_iter; ++iter)\<close>. With \<^verbatim>\<open>max_iter\<close> the largest
  \<^verbatim>\<open>size_t\<close> the test always holds and \<^verbatim>\<open>++iter\<close> wraps around, so the loop need not
  terminate: the loop is a partial function, \<open>None\<close> when it does not return.
\<close>

partial_function (option) Newton_loop ::
  "('a, 'a, 'a) Differentiable_Function \<Rightarrow> 'a::{plus,uminus,inverse,abs,ord}
     \<Rightarrow> size_t \<Rightarrow> size_t \<Rightarrow> 'a root_state \<Rightarrow> 'a root_state option" where
  "Newton_loop f_obj epsilon max_iter iter s =
     (if iter \<le> max_iter
      then (let s1 = Newton_iteration f_obj epsilon iter s
            in if has_converged s1 then Some s1
               else Newton_loop f_obj epsilon max_iter (iter + 1) s1)
      else Some s)"

declare Newton_loop.simps [code]

text \<open>\<^verbatim>\<open>Newton(f_obj, x, epsilon, max_iter)\<close>.\<close>

definition Newton ::
  "('a, 'a, 'a) Differentiable_Function \<Rightarrow> 'a::{plus,uminus,inverse,abs,ord}
     \<Rightarrow> 'a \<Rightarrow> size_t \<Rightarrow> heap \<Rightarrow> 'a root_state option" where
  "Newton f_obj x epsilon max_iter h =
     Newton_loop f_obj epsilon max_iter 1
       \<lparr>iterate = x, has_converged = False, counters = h, cerr = []\<rparr>"

text \<open>
  The default arguments \<^verbatim>\<open>epsilon = 1e-10\<close> and \<^verbatim>\<open>max_iter = 20\<close>. The literal is taken as
  the number it denotes.
\<close>

definition Newton_default ::
  "('a, 'a, 'a) Differentiable_Function
     \<Rightarrow> 'a::{plus,uminus,inverse,abs,ord,numeral,power}
     \<Rightarrow> heap \<Rightarrow> 'a root_state option" where
  "Newton_default f_obj x h = Newton f_obj x (1 / 10 ^ 10) 20 h"

text \<open>
  The body of Steffensen's loop: two evaluations of \<^verbatim>\<open>f_obj.f\<close>.
  \<^verbatim>\<open>-f * f / (g - f)\<close> is \<^verbatim>\<open>((-f) * f) / (g - f)\<close>.
\<close>

definition Steffensen_iteration ::
  "('a, 'a) Function \<Rightarrow> 'a::{plus,minus,uminus,times,inverse,abs,ord}
     \<Rightarrow> size_t \<Rightarrow> 'a root_state \<Rightarrow> 'a root_state" where
  "Steffensen_iteration f_obj epsilon iter s =
     (let (f, h1) = Function_f f_obj (iterate s) (counters s);
          (g, h2) = Function_f f_obj (iterate s + f) h1;
          delta_x = - f * f / (g - f);
          converged = \<bar>delta_x\<bar> < epsilon;
          x1 = iterate s + delta_x
      in \<lparr>iterate = x1, has_converged = converged, counters = h2,
          cerr = cerr s @ [(iter, x1, f)]\<rparr>)"

partial_function (option) Steffensen_loop ::
  "('a, 'a) Function \<Rightarrow> 'a::{plus,minus,uminus,times,inverse,abs,ord}
     \<Rightarrow> size_t \<Rightarrow> size_t \<Rightarrow> 'a root_state \<Rightarrow> 'a root_state option" where
  "Steffensen_loop f_obj epsilon max_iter iter s =
     (if iter \<le> max_iter
      then (let s1 = Steffensen_iteration f_obj epsilon iter s
            in if has_converged s1 then Some s1
               else Steffensen_loop f_obj epsilon max_iter (iter + 1) s1)
      else Some s)"

declare Steffensen_loop.simps [code]

text \<open>\<^verbatim>\<open>Steffensen(f_obj, x, epsilon, max_iter)\<close> and its default arguments.\<close>

definition Steffensen ::
  "('a, 'a) Function \<Rightarrow> 'a::{plus,minus,uminus,times,inverse,abs,ord}
     \<Rightarrow> 'a \<Rightarrow> size_t \<Rightarrow> heap \<Rightarrow> 'a root_state option" where
  "Steffensen f_obj x epsilon max_iter h =
     Steffensen_loop f_obj epsilon max_iter 1
       \<lparr>iterate = x, has_converged = False, counters = h, cerr = []\<rparr>"

definition Steffensen_default ::
  "('a, 'a) Function
     \<Rightarrow> 'a::{plus,minus,uminus,times,inverse,abs,ord,numeral,power}
     \<Rightarrow> heap \<Rightarrow> 'a root_state option" where
  "Steffensen_default f_obj x h = Steffensen f_obj x (1 / 10 ^ 10) 20 h"

section \<open>Sequences of evaluations\<close>

text \<open>
  A caller evaluates through whichever wrapper it holds: a \<^verbatim>\<open>Function\<close> (a copy, or the
  downgrade of a differentiable function) with \<^verbatim>\<open>f\<close>, or a \<^verbatim>\<open>Differentiable_Function\<close>
  with \<^verbatim>\<open>f\<close>, \<^verbatim>\<open>f_df\<close> or \<^verbatim>\<open>df\<close>. The wrapped computations are pure, so a sequence of
  such calls acts on the heap of counters only.
\<close>

datatype ('d, 'c, 'g) call =
    Call_f "('d, 'c) Function" 'd
  | Call_DF_f "('d, 'c, 'g) Differentiable_Function" 'd
  | Call_DF_f_df "('d, 'c, 'g) Differentiable_Function" 'd
  | Call_DF_df "('d, 'c, 'g) Differentiable_Function" 'd

fun do_call :: "('d, 'c, 'g) call \<Rightarrow> heap \<Rightarrow> heap" where
  "do_call (Call_f F x) h = snd (Function_f F x h)"
| "do_call (Call_DF_f D x) h = snd (DF_f D x h)"
| "do_call (Call_DF_f_df D x) h = snd (DF_f_df D x h)"
| "do_call (Call_DF_df D x) h = snd (DF_df D x h)"

fun do_calls :: "('d, 'c, 'g) call list \<Rightarrow> heap \<Rightarrow> heap" where
  "do_calls [] h = h"
| "do_calls (c # cs) h = do_calls cs (do_call c h)"

text \<open>The calls that evaluate the value, and those that evaluate the derivative.\<close>

fun is_value_eval :: "('d, 'c, 'g) call \<Rightarrow> bool" where
  "is_value_eval (Call_DF_df D x) = False"
| "is_value_eval c = True"

fun is_derivative_eval :: "('d, 'c, 'g) call \<Rightarrow> bool" where
  "is_derivative_eval (Call_DF_f_df D x) = True"
| "is_derivative_eval (Call_DF_df D x) = True"
| "is_derivative_eval c = False"

text \<open>
  The wrapper of a call is an alias sharing the value counter at address \<open>a\<close> and, when
  it is differentiable, the derivative counter at address \<open>b\<close>.
\<close>

fun shares :: "nat \<Rightarrow> nat \<Rightarrow> ('d, 'c, 'g) call \<Rightarrow> bool" where
  "shares a b (Call_f F x) = (f_counter_ptr F = Some a)"
| "shares a b (Call_DF_f D x) = (d_f_counter_ptr D = Some a \<and> d_df_counter_ptr D = Some b)"
| "shares a b (Call_DF_f_df D x) = (d_f_counter_ptr D = Some a \<and> d_df_counter_ptr D = Some b)"
| "shares a b (Call_DF_df D x) = (d_f_counter_ptr D = Some a \<and> d_df_counter_ptr D = Some b)"

section \<open>The example objective of the root finders\<close>

text \<open>
  \<^verbatim>\<open>square_root(x, f, df, c)\<close> writes \<^verbatim>\<open>x * x - c\<close> through \<^verbatim>\<open>f\<close> and \<^verbatim>\<open>2 * x\<close> through \<^verbatim>\<open>df\<close>,
  each only when the pointer is not null. \<^verbatim>\<open>Differentiable_Function f(square_root<double>, 2)\<close>
  binds the extra argument.
\<close>

definition square_root ::
  "'a::{times,minus,numeral} \<Rightarrow> bool \<Rightarrow> bool \<Rightarrow> 'a \<Rightarrow> 'a option \<times> 'a option" where
  "square_root x want_f want_df c =
     (if want_f then Some (x * x - c) else None,
      if want_df then Some (2 * x) else None)"

definition square_root_2 :: "(rat, rat, rat) Differentiable_Function" where
  "square_root_2 = Differentiable_Function_of (\<lambda>x want_f want_df. square_root x want_f want_df 2)"

text \<open>The objective \<open>x \<mapsto> x * x - 0\<close>, with derivative \<open>2 * x\<close>.\<close>

definition square_root_0 :: "(rat, rat, rat) Differentiable_Function" where
  "square_root_0 = Differentiable_Function_of (\<lambda>x want_f want_df. square_root x want_f want_df 0)"

text \<open>The objective \<open>x \<mapsto> x * x + 1 / 2\<close>, which has no root.\<close>

definition square_root_minus_half :: "(rat, rat, rat) Differentiable_Function" where
  "square_root_minus_half =
     Differentiable_Function_of (\<lambda>x want_f want_df. square_root x want_f want_df (- 1 / 2))"

text \<open>The objective \<^verbatim>\<open>square_root\<close> with \<open>c = 2\<close> after \<^verbatim>\<open>initialize_counter()\<close> on an empty heap.\<close>

definition counted_square_root_2 :: "(rat, rat, rat) Differentiable_Function" where
  "counted_square_root_2 = fst (DF_initialize_counter square_root_2 [])"

section \<open>Example inputs of the Adam solver\<close>

text \<open>
  The real numbers with their square root and powers, the objective
  \<open>x \<mapsto> \<Sum>\<^sub>i x\<^sub>i\<^sup>2\<close> with gradient \<open>2 x\<close>, and a configuration whose values are in
  range.
\<close>

definition real_cmath :: "real cmath" where
  "real_cmath = \<lparr>c_sqrt = sqrt, c_pow = (\<lambda>x n. x ^ n)\<rparr>"

definition sum_of_squares :: "(real valarray, real, real valarray) callable" where
  "sum_of_squares x want_f want_df =
     (if want_f then Some (sum_list (map (\<lambda>a. a * a) x)) else None,
      if want_df then Some (map (\<lambda>a. 2 * a) x) else None)"

definition example_objective ::
  "(real valarray, real, real valarray) Differentiable_Function" where
  "example_objective = Differentiable_Function_of sum_of_squares"

definition example_configuration :: "real Adam_Configuration" where
  "example_configuration =
     \<lparr>maximimum_iterations = 100, alpha_schedule = (\<lambda>k. 1), beta_1 = 1/2, beta_2 = 1/2,
      absolute_epsilon = 1, verbose = False, internal_epsilon = 1/2\<rparr>"

section \<open>The iteration policy of the root finders, as the specification words it\<close>

text \<open>
  The specification of both root finders: the state is the current \<open>x\<close>; an iteration
  computes a step \<open>delta\<close> from \<open>x\<close>, updates \<open>x += delta\<close> and declares convergence when
  \<open>\<bar>delta\<bar> < epsilon\<close>; the run ends converged, or exhausted when the iteration cap is
  reached without convergence. \<open>spec_iterate\<close> runs this policy for at most \<open>n\<close>
  iterations and returns the flag, the final \<open>x\<close> and the number of iterations executed.
  Newton's step is \<open>- f / df\<close> with \<open>(f, df) = value_and_derivative(x)\<close>; Steffensen's is
  \<open>- f\<^sup>2 / (g - f)\<close> with \<open>f = value(x)\<close> and \<open>g = value(x + f)\<close>. The solvers of the
  program are compared with these definitions.
\<close>

fun spec_iterate ::
  "('a \<Rightarrow> 'a) \<Rightarrow> 'a::{plus,abs,ord} \<Rightarrow> nat \<Rightarrow> 'a \<Rightarrow> bool \<times> 'a \<times> nat" where
  "spec_iterate delta epsilon 0 x = (False, x, 0)"
| "spec_iterate delta epsilon (Suc n) x =
     (let d = delta x
      in if \<bar>d\<bar> < epsilon then (True, x + d, 1)
         else (case spec_iterate delta epsilon n (x + d) of
                 (converged, y, iterations) \<Rightarrow> (converged, y, Suc iterations)))"

definition spec_Newton_delta ::
  "('a, 'a, 'a) Differentiable_Function \<Rightarrow> 'a::{uminus,inverse} \<Rightarrow> 'a" where
  "spec_Newton_delta F x = (case Diff_f_df (d_pimpl F) x of (f, df) \<Rightarrow> - f / df)"

definition spec_Steffensen_delta ::
  "('a, 'a) Function \<Rightarrow> 'a::{plus,minus,uminus,times,inverse} \<Rightarrow> 'a" where
  "spec_Steffensen_delta F x =
     (let f = Interface_f (pimpl F) x;
          g = Interface_f (pimpl F) (x + f)
      in - (f * f) / (g - f))"

text \<open>
  What a run that started in state \<open>s\<close> and ended in state \<open>r\<close> has in common with the
  result of the policy: the flag, the final iterate, one line written per iteration, and
  the counters advanced by \<open>count\<close> once per iteration.
\<close>

definition root_result ::
  "bool \<Rightarrow> bool \<times> 'a \<times> nat \<Rightarrow> (heap \<Rightarrow> heap)
     \<Rightarrow> 'a root_state \<Rightarrow> 'a root_state \<Rightarrow> bool" where
  "root_result converged sp count s r =
     (has_converged r = converged
      \<and> iterate r = fst (snd sp)
      \<and> counters r = (count ^^ snd (snd sp)) (counters s)
      \<and> length (cerr r) = length (cerr s) + snd (snd sp))"

section \<open>Properties of the counters\<close>

lemma length_incr [simp]: "length (incr p h) = length h"
  by (simp add: incr_def split: option.split)

lemma incr_nth_same: "a < length h \<Longrightarrow> incr (Some a) h ! a = h ! a + 1"
  by (simp add: incr_def)

lemma incr_nth_other: "p \<noteq> Some b \<Longrightarrow> incr p h ! b = h ! b"
  by (cases p) (simp_all add: incr_def)

lemma make_shared_simp [simp]: "make_shared v h = (length h, h @ [v])"
  by (simp add: make_shared_def)

lemma Function_initialize_counter_eq:
  "Function_initialize_counter F h = (F\<lparr>f_counter_ptr := Some (length h)\<rparr>, h @ [0])"
  by (simp add: Function_initialize_counter_def)

lemma DF_initialize_counter_eq:
  "DF_initialize_counter D h =
     (D\<lparr>d_f_counter_ptr := Some (length h), d_df_counter_ptr := Some (Suc (length h))\<rparr>,
      h @ [0, 0])"
  by (simp add: DF_initialize_counter_def)

lemma do_call_length [simp]: "length (do_call c h) = length h"
  by (cases c) (simp_all add: Function_f_def DF_f_def DF_f_df_def DF_df_def Let_def)

lemma do_call_value:
  "a < length h \<Longrightarrow> a \<noteq> b \<Longrightarrow> shares a b c \<Longrightarrow>
   do_call c h ! a = h ! a + (if is_value_eval c then 1 else 0)"
  by (cases c)
     (simp_all add: Function_f_def DF_f_def DF_f_df_def DF_df_def Let_def
        incr_nth_same incr_nth_other)

lemma do_call_derivative:
  "b < length h \<Longrightarrow> a \<noteq> b \<Longrightarrow> shares a b c \<Longrightarrow>
   do_call c h ! b = h ! b + (if is_derivative_eval c then 1 else 0)"
  by (cases c)
     (simp_all add: Function_f_def DF_f_def DF_f_df_def DF_df_def Let_def
        incr_nth_same incr_nth_other)

lemma do_calls_length [simp]: "length (do_calls cs h) = length h"
  by (induction cs arbitrary: h) simp_all

lemma do_calls_value:
  "a < length h \<Longrightarrow> a \<noteq> b \<Longrightarrow> \<forall>c \<in> set cs. shares a b c \<Longrightarrow>
   do_calls cs h ! a = h ! a + of_nat (length (filter is_value_eval cs))"
proof (induction cs arbitrary: h)
  case Nil
  then show ?case by simp
next
  case (Cons c cs)
  have "do_calls cs (do_call c h) ! a =
        do_call c h ! a + of_nat (length (filter is_value_eval cs))"
    using Cons.prems by (intro Cons.IH) simp_all
  then show ?case
    using Cons.prems by (simp add: do_call_value)
qed

lemma do_calls_derivative:
  "b < length h \<Longrightarrow> a \<noteq> b \<Longrightarrow> \<forall>c \<in> set cs. shares a b c \<Longrightarrow>
   do_calls cs h ! b = h ! b + of_nat (length (filter is_derivative_eval cs))"
proof (induction cs arbitrary: h)
  case Nil
  then show ?case by simp
next
  case (Cons c cs)
  have "do_calls cs (do_call c h) ! b =
        do_call c h ! b + of_nat (length (filter is_derivative_eval cs))"
    using Cons.prems by (intro Cons.IH) simp_all
  then show ?case
    using Cons.prems by (simp add: do_call_derivative)
qed

subsection \<open>Counting evaluations\<close>

text \<open>
  Claim C5. With the counters initialised (the value counter in cell \<open>a\<close>, the derivative
  counter in another cell \<open>b\<close>), every evaluation increments the matching counter exactly
  once: \<^verbatim>\<open>f\<close> and \<^verbatim>\<open>f_df\<close> the value counter, \<^verbatim>\<open>df\<close> and \<^verbatim>\<open>f_df\<close> the derivative counter,
  both on the combined call. Hence after any sequence of evaluations through aliases that
  share the counters, the value counter has advanced by the number of value evaluations
  and the derivative counter by the number of derivative evaluations; started at zero, a
  counter reads exactly the number \<open>n\<close> of evaluations (\<open>n\<close> within the range of
  \<^verbatim>\<open>size_t\<close>).
\<close>

theorem evaluation_counters_count_evaluations:
  fixes F :: "('d, 'c) Function" and D :: "('d, 'c, 'g) Differentiable_Function"
    and cs :: "('d, 'c, 'g) call list"
  assumes cells: "a < length h" "b < length h" "a \<noteq> b"
    and F: "f_counter_ptr F = Some a"
    and D: "d_f_counter_ptr D = Some a" "d_df_counter_ptr D = Some b"
    and cs: "\<forall>c \<in> set cs. shares a b c"
  shows
  "snd (Function_f F x h) ! a = h ! a + 1 \<and> snd (Function_f F x h) ! b = h ! b
   \<and> snd (DF_f D x h) ! a = h ! a + 1 \<and> snd (DF_f D x h) ! b = h ! b
   \<and> snd (DF_df D x h) ! a = h ! a \<and> snd (DF_df D x h) ! b = h ! b + 1
   \<and> snd (DF_f_df D x h) ! a = h ! a + 1 \<and> snd (DF_f_df D x h) ! b = h ! b + 1
   \<and> do_calls cs h ! a = h ! a + of_nat (length (filter is_value_eval cs))
   \<and> do_calls cs h ! b = h ! b + of_nat (length (filter is_derivative_eval cs))
   \<and> (h ! a = 0 \<and> length (filter is_value_eval cs) = n \<and> n < 2 ^ 64 \<longrightarrow>
        Function_f_counter F (do_calls cs h) = Inr (of_nat n)
        \<and> DF_f_counter D (do_calls cs h) = Inr (of_nat n)
        \<and> unat (do_calls cs h ! a) = n)
   \<and> (h ! b = 0 \<and> length (filter is_derivative_eval cs) = m \<and> m < 2 ^ 64 \<longrightarrow>
        DF_df_counter D (do_calls cs h) = Inr (of_nat m)
        \<and> unat (do_calls cs h ! b) = m)"
proof -
  have single:
    "snd (Function_f F x h) ! a = h ! a + 1 \<and> snd (Function_f F x h) ! b = h ! b
     \<and> snd (DF_f D x h) ! a = h ! a + 1 \<and> snd (DF_f D x h) ! b = h ! b
     \<and> snd (DF_df D x h) ! a = h ! a \<and> snd (DF_df D x h) ! b = h ! b + 1
     \<and> snd (DF_f_df D x h) ! a = h ! a + 1 \<and> snd (DF_f_df D x h) ! b = h ! b + 1"
    using cells F D
    by (simp add: Function_f_def DF_f_def DF_df_def DF_f_df_def Let_def
          incr_nth_same incr_nth_other)
  have va: "do_calls cs h ! a = h ! a + of_nat (length (filter is_value_eval cs))"
    using cells cs by (simp add: do_calls_value)
  have de: "do_calls cs h ! b = h ! b + of_nat (length (filter is_derivative_eval cs))"
    using cells cs by (simp add: do_calls_derivative)
  have un: "unat (of_nat k :: size_t) = k" if "k < 2 ^ 64" for k
    using that by (simp add: unat_of_nat)
  show ?thesis
    using single va de un F D
    by (auto simp add: Function_f_counter_def DF_f_counter_def DF_df_counter_def read_counter_def)
qed


theorem evaluation_counters_count_evaluations_witness:
  "(0 < length [0, 0 :: size_t] \<and> 1 < length [0, 0 :: size_t] \<and> (0 :: nat) \<noteq> 1
    \<and> f_counter_ptr (as_function counted_square_root_2) = Some 0
    \<and> d_f_counter_ptr counted_square_root_2 = Some 0
    \<and> d_df_counter_ptr counted_square_root_2 = Some 1
    \<and> list_all (shares 0 1) [Call_DF_f_df counted_square_root_2 2,
                     Call_f (as_function counted_square_root_2) 1,
                     Call_DF_df counted_square_root_2 3])
   \<and> Function_f_counter (as_function counted_square_root_2)
        (do_calls [Call_DF_f_df counted_square_root_2 2,
                   Call_f (as_function counted_square_root_2) 1,
                   Call_DF_df counted_square_root_2 3] [0, 0]) = Inr 2
   \<and> DF_df_counter counted_square_root_2
        (do_calls [Call_DF_f_df counted_square_root_2 2,
                   Call_f (as_function counted_square_root_2) 1,
                   Call_DF_df counted_square_root_2 3] [0, 0]) = Inr 2"
proof -
  let ?D = counted_square_root_2
  let ?cs = "[Call_DF_f_df ?D 2, Call_f (as_function ?D) 1, Call_DF_df ?D 3]"
  have hyps:
    "0 < length [0, 0 :: size_t]" "1 < length [0, 0 :: size_t]" "(0 :: nat) \<noteq> 1"
    "f_counter_ptr (as_function ?D) = Some 0"
    "d_f_counter_ptr ?D = Some 0" "d_df_counter_ptr ?D = Some 1"
    "\<forall>c \<in> set ?cs. shares 0 1 c"
    by (simp_all add: counted_square_root_2_def DF_initialize_counter_eq as_function_def to_function_type_def)
  show ?thesis
    using hyps evaluation_counters_count_evaluations [OF hyps, of 2 2 2]
    by simp
qed


subsection \<open>Downgrading to a plain function\<close>

text \<open>
  Claim C6. The \<^verbatim>\<open>Function\<close> obtained from a \<^verbatim>\<open>Differentiable_Function\<close> by \<^verbatim>\<open>as_function\<close>
  or by the conversion operator has the original's evaluation strategy and its
  value-counter pointer. Evaluating \<^verbatim>\<open>f\<close> on it has the same result and the same effect
  on the heap as evaluating \<^verbatim>\<open>f\<close> on the original, so evaluations through either one
  accumulate in the one shared cell, which both read.
\<close>

theorem as_function_shares_value_counter:
  fixes D :: "('d, 'c, 'g) Differentiable_Function"
  shows
  "to_function_type D = as_function D
   \<and> f_counter_ptr (as_function D) = d_f_counter_ptr D
   \<and> Interface_f (pimpl (as_function D)) = Diff_f (d_pimpl D)
   \<and> Function_f (as_function D) x h = DF_f D x h
   \<and> Function_f_counter (as_function D) h = DF_f_counter D h
   \<and> (d_f_counter_ptr D = Some a \<and> a < length h \<longrightarrow>
        DF_f_counter D (snd (Function_f (as_function D) x h)) = Inr (h ! a + 1)
        \<and> Function_f_counter (as_function D) (snd (DF_f D x h)) = Inr (h ! a + 1)
        \<and> DF_f_counter D (snd (DF_f D y (snd (Function_f (as_function D) x h))))
            = Inr (h ! a + 2)
        \<and> Function_f_counter (as_function D)
             (snd (Function_f (as_function D) y (snd (DF_f D x h)))) = Inr (h ! a + 2))"
  by (simp add: as_function_def to_function_type_def Function_f_def DF_f_def
        Function_f_counter_def DF_f_counter_def read_counter_def incr_def)


theorem as_function_shares_value_counter_witness:
  "(d_f_counter_ptr counted_square_root_2 = Some 0 \<and> 0 < length [0, 0 :: size_t])
   \<and> DF_f_counter counted_square_root_2
        (snd (Function_f (as_function counted_square_root_2) 2 [0, 0])) = Inr 1
   \<and> DF_f_counter counted_square_root_2
        (snd (DF_f counted_square_root_2 3
           (snd (Function_f (as_function counted_square_root_2) 2 [0, 0])))) = Inr 2"
proof -
  have hyps: "d_f_counter_ptr counted_square_root_2 = Some 0 \<and> 0 < length [0, 0 :: size_t]"
    by (simp add: counted_square_root_2_def DF_initialize_counter_eq)
  show ?thesis
    using hyps
      as_function_shares_value_counter [of counted_square_root_2 2 "[0, 0]" 0 3]
    by (simp add: counted_square_root_2_def square_root_2_def
          Differentiable_Function_of_def Function_of_def
          Function_initialize_counter_eq DF_initialize_counter_eq
          as_function_def to_function_type_def Function_f_def DF_f_def DF_f_df_def DF_df_def
          Function_f_counter_def DF_f_counter_def DF_df_counter_def read_counter_def incr_def)
qed

subsection \<open>Reading a counter\<close>

text \<open>
  Claim C9. Reading a counter that has not been initialised fails: \<^verbatim>\<open>f_counter\<close> on a
  \<^verbatim>\<open>Function\<close>, and \<^verbatim>\<open>f_counter\<close> and \<^verbatim>\<open>df_counter\<close> on a \<^verbatim>\<open>Differentiable_Function\<close>, whose
  counter pointer is empty (as it is after construction from a callable) end in the
  failed \<^verbatim>\<open>assert\<close>, which aborts the caller (the specification's
  \<open>PreconditionViolation\<close>). After \<^verbatim>\<open>initialize_counter\<close> the read
  succeeds: it returns zero at once, and after any evaluations through aliases of the
  initialised wrapper it returns the number of evaluations counted.
\<close>

theorem counter_read_needs_initialize_counter:
  fixes F :: "('d, 'c) Function" and D :: "('d, 'c, 'g) Differentiable_Function"
    and cs ds :: "('d, 'c, 'g) call list"
  shows
  "Function_f_counter (Function_of g) h = Inl Assertion_Failure
   \<and> DF_f_counter (Differentiable_Function_of c) h = Inl Assertion_Failure
   \<and> DF_df_counter (Differentiable_Function_of c) h = Inl Assertion_Failure
   \<and> (f_counter_ptr F = None \<longrightarrow> Function_f_counter F h = Inl Assertion_Failure)
   \<and> (d_f_counter_ptr D = None \<longrightarrow> DF_f_counter D h = Inl Assertion_Failure)
   \<and> (d_df_counter_ptr D = None \<longrightarrow> DF_df_counter D h = Inl Assertion_Failure)
   \<and> (case Function_initialize_counter F h of (F1, h1) \<Rightarrow>
         Function_f_counter F1 h1 = Inr 0
         \<and> (b \<noteq> length h \<and> (\<forall>c \<in> set cs. shares (length h) b c) \<longrightarrow>
              Function_f_counter F1 (do_calls cs h1)
                = Inr (of_nat (length (filter is_value_eval cs)))))
   \<and> (case DF_initialize_counter D h of (D1, h1) \<Rightarrow>
         DF_f_counter D1 h1 = Inr 0 \<and> DF_df_counter D1 h1 = Inr 0
         \<and> ((\<forall>c \<in> set ds. shares (length h) (Suc (length h)) c) \<longrightarrow>
              DF_f_counter D1 (do_calls ds h1)
                = Inr (of_nat (length (filter is_value_eval ds)))
              \<and> DF_df_counter D1 (do_calls ds h1)
                = Inr (of_nat (length (filter is_derivative_eval ds)))))"
proof -
  let ?a = "length h" and ?b = "Suc (length h)"
  have uninit:
    "Function_f_counter (Function_of g) h = Inl Assertion_Failure"
    "DF_f_counter (Differentiable_Function_of c) h = Inl Assertion_Failure"
    "DF_df_counter (Differentiable_Function_of c) h = Inl Assertion_Failure"
    "f_counter_ptr F = None \<longrightarrow> Function_f_counter F h = Inl Assertion_Failure"
    "d_f_counter_ptr D = None \<longrightarrow> DF_f_counter D h = Inl Assertion_Failure"
    "d_df_counter_ptr D = None \<longrightarrow> DF_df_counter D h = Inl Assertion_Failure"
    by (simp_all add: Function_f_counter_def DF_f_counter_def DF_df_counter_def
          Function_of_def Differentiable_Function_of_def read_counter_def)
  have fn: "b \<noteq> ?a \<and> (\<forall>c \<in> set cs. shares ?a b c) \<longrightarrow>
            do_calls cs (h @ [0]) ! ?a = of_nat (length (filter is_value_eval cs))"
    using do_calls_value [of ?a "h @ [0]" b cs] by auto
  have dv: "(\<forall>c \<in> set ds. shares ?a ?b c) \<longrightarrow>
            do_calls ds (h @ [0, 0]) ! ?a = of_nat (length (filter is_value_eval ds))"
    using do_calls_value [of ?a "h @ [0, 0]" ?b ds] by (auto simp: nth_append)
  have dd: "(\<forall>c \<in> set ds. shares ?a ?b c) \<longrightarrow>
            do_calls ds (h @ [0, 0]) ! ?b = of_nat (length (filter is_derivative_eval ds))"
    using do_calls_derivative [of ?b "h @ [0, 0]" ?a ds] by (auto simp: nth_append)
  show ?thesis
    using uninit fn dv dd
    by (simp add: Function_initialize_counter_eq DF_initialize_counter_eq
          Function_f_counter_def DF_f_counter_def DF_df_counter_def read_counter_def
          nth_append)
qed


theorem counter_read_needs_initialize_counter_witness:
  "(f_counter_ptr (as_function square_root_2) = None
    \<and> Function_f_counter (as_function square_root_2) [] = Inl Assertion_Failure)
   \<and> (d_f_counter_ptr square_root_2 = None
    \<and> DF_f_counter square_root_2 [] = Inl Assertion_Failure)
   \<and> (d_df_counter_ptr square_root_2 = None
    \<and> DF_df_counter square_root_2 [] = Inl Assertion_Failure)
   \<and> ((1 :: nat) \<noteq> length ([] :: heap)
    \<and> list_all (shares 0 1) [Call_f (as_function counted_square_root_2) 1,
                     Call_DF_f counted_square_root_2 2,
                     Call_f (as_function counted_square_root_2) 3]
    \<and> Function_f_counter (fst (Function_initialize_counter (as_function square_root_2) []))
        (do_calls [Call_f (as_function counted_square_root_2) 1,
                   Call_DF_f counted_square_root_2 2,
                   Call_f (as_function counted_square_root_2) 3] [0]) = Inr 3)
   \<and> (list_all (shares 0 1) [Call_DF_f_df counted_square_root_2 2,
                     Call_DF_df counted_square_root_2 1,
                     Call_DF_df counted_square_root_2 3]
    \<and> DF_f_counter counted_square_root_2
        (do_calls [Call_DF_f_df counted_square_root_2 2,
                   Call_DF_df counted_square_root_2 1,
                   Call_DF_df counted_square_root_2 3] [0, 0]) = Inr 1
    \<and> DF_df_counter counted_square_root_2
        (do_calls [Call_DF_f_df counted_square_root_2 2,
                   Call_DF_df counted_square_root_2 1,
                   Call_DF_df counted_square_root_2 3] [0, 0]) = Inr 3)"
proof -
  let ?D = counted_square_root_2
  let ?cs = "[Call_f (as_function ?D) 1, Call_DF_f ?D 2, Call_f (as_function ?D) 3]"
  let ?ds = "[Call_DF_f_df ?D 2, Call_DF_df ?D 1, Call_DF_df ?D 3]"
  have hyps:
    "f_counter_ptr (as_function square_root_2) = None"
    "d_f_counter_ptr square_root_2 = None" "d_df_counter_ptr square_root_2 = None"
    "(1 :: nat) \<noteq> length ([] :: heap)"
    "\<forall>c \<in> set ?cs. shares 0 1 c" "\<forall>c \<in> set ?ds. shares 0 1 c"
    by (simp_all add: counted_square_root_2_def square_root_2_def
          Differentiable_Function_of_def DF_initialize_counter_eq
          as_function_def to_function_type_def)
  have init: "fst (DF_initialize_counter square_root_2 []) = ?D"
    by (simp add: counted_square_root_2_def)
  show ?thesis
    using hyps init
      counter_read_needs_initialize_counter
        [of "\<lambda>x :: rat. x" "[]" "\<lambda>x want_f want_df. square_root (x :: rat) want_f want_df 2"
            "as_function square_root_2" square_root_2 1 ?cs ?ds]
    by (simp add: counted_square_root_2_def square_root_2_def
          Differentiable_Function_of_def Function_of_def
          Function_initialize_counter_eq DF_initialize_counter_eq
          as_function_def to_function_type_def Function_f_def DF_f_def DF_f_df_def DF_df_def
          Function_f_counter_def DF_f_counter_def DF_df_counter_def read_counter_def incr_def)
qed

subsection \<open>Re-initialising a counter\<close>

text \<open>
  Claim C10. \<^verbatim>\<open>initialize_counter\<close> installs a new cell holding zero in the wrapper it is
  called on, and leaves the cell the wrapper pointed to before as it is. A copy, or a
  downgraded \<^verbatim>\<open>Function\<close>, made before the call keeps the previous cell: its evaluations
  increment that cell and do not show in the new counter, and evaluations through the
  re-initialised wrapper do not show in the old one. The count accumulated before the
  call stays in the old cell; the shared cell is not set to zero.
\<close>

theorem initialize_counter_installs_new_cell:
  fixes F :: "('d, 'c) Function" and D :: "('d, 'c, 'g) Differentiable_Function"
  assumes F: "f_counter_ptr F = Some a" "a < length h"
    and D: "d_f_counter_ptr D = Some p" "p < length h"
           "d_df_counter_ptr D = Some q" "q < length h" "p \<noteq> q"
  shows
  "(case Function_initialize_counter F h of (F1, h1) \<Rightarrow>
      f_counter_ptr F1 = Some (length h) \<and> f_counter_ptr F1 \<noteq> f_counter_ptr F
      \<and> pimpl F1 = pimpl F
      \<and> Function_f_counter F1 h1 = Inr 0
      \<and> Function_f_counter F h1 = Inr (h ! a)
      \<and> Function_f_counter F1 (snd (Function_f F x h1)) = Inr 0
      \<and> Function_f_counter F (snd (Function_f F x h1)) = Inr (h ! a + 1)
      \<and> Function_f_counter F1 (snd (Function_f F1 x h1)) = Inr 1
      \<and> Function_f_counter F (snd (Function_f F1 x h1)) = Inr (h ! a))
   \<and> (case DF_initialize_counter D h of (D1, h1) \<Rightarrow>
      d_f_counter_ptr D1 = Some (length h) \<and> d_df_counter_ptr D1 = Some (Suc (length h))
      \<and> f_counter_ptr (as_function D) = Some p
      \<and> f_counter_ptr (as_function D1) = Some (length h)
      \<and> DF_f_counter D1 h1 = Inr 0 \<and> DF_df_counter D1 h1 = Inr 0
      \<and> DF_f_counter D h1 = Inr (h ! p) \<and> DF_df_counter D h1 = Inr (h ! q)
      \<and> DF_f_counter D1 (snd (Function_f (as_function D) x h1)) = Inr 0
      \<and> Function_f_counter (as_function D) (snd (Function_f (as_function D) x h1))
           = Inr (h ! p + 1)
      \<and> DF_f_counter D1 (snd (DF_f_df D x h1)) = Inr 0
      \<and> DF_df_counter D1 (snd (DF_f_df D x h1)) = Inr 0
      \<and> DF_f_counter D (snd (DF_f_df D x h1)) = Inr (h ! p + 1)
      \<and> DF_df_counter D (snd (DF_f_df D x h1)) = Inr (h ! q + 1)
      \<and> DF_f_counter D (snd (DF_f_df D1 x h1)) = Inr (h ! p)
      \<and> Function_f_counter (as_function D) (snd (DF_f_df D1 x h1)) = Inr (h ! p)
      \<and> DF_f_counter D1 (snd (DF_f_df D1 x h1)) = Inr 1
      \<and> DF_df_counter D1 (snd (DF_f_df D1 x h1)) = Inr 1)"
  using F D
  by (simp add: Function_initialize_counter_eq DF_initialize_counter_eq
        as_function_def to_function_type_def Function_f_def DF_f_def DF_f_df_def
        Function_f_counter_def DF_f_counter_def DF_df_counter_def read_counter_def incr_def
        nth_append Let_def)

theorem initialize_counter_installs_new_cell_witness:
  "(f_counter_ptr (as_function counted_square_root_2) = Some 0 \<and> 0 < length [5, 7 :: size_t]
    \<and> d_f_counter_ptr counted_square_root_2 = Some 0
    \<and> d_df_counter_ptr counted_square_root_2 = Some 1 \<and> 1 < length [5, 7 :: size_t]
    \<and> (0 :: nat) \<noteq> 1)
   \<and> DF_f_counter (fst (DF_initialize_counter counted_square_root_2 [5, 7]))
        (snd (DF_initialize_counter counted_square_root_2 [5, 7])) = Inr 0
   \<and> DF_f_counter (fst (DF_initialize_counter counted_square_root_2 [5, 7]))
        (snd (Function_f (as_function counted_square_root_2) 2
           (snd (DF_initialize_counter counted_square_root_2 [5, 7])))) = Inr 0
   \<and> Function_f_counter (as_function counted_square_root_2)
        (snd (Function_f (as_function counted_square_root_2) 2
           (snd (DF_initialize_counter counted_square_root_2 [5, 7])))) = Inr 6"
proof -
  let ?D = counted_square_root_2
  have hyps:
    "f_counter_ptr (as_function ?D) = Some 0" "0 < length [5, 7 :: size_t]"
    "d_f_counter_ptr ?D = Some 0" "0 < length [5, 7 :: size_t]"
    "d_df_counter_ptr ?D = Some 1" "1 < length [5, 7 :: size_t]" "(0 :: nat) \<noteq> 1"
    by (simp_all add: counted_square_root_2_def DF_initialize_counter_eq
          as_function_def to_function_type_def)
  show ?thesis
    using hyps initialize_counter_installs_new_cell [OF hyps, of 2]
    by (simp add: DF_initialize_counter_eq)
qed

section \<open>Configuration validation\<close>




section \<open>Properties of the Adam solver\<close>

lemma Adam_iteration_converged:
  assumes "norm_2 M (Diff_df (d_pimpl F) (iterate s)) < absolute_epsilon cfg"
  shows "Adam_iteration M cfg F k s =
     s\<lparr>has_converged := True,
       counters := incr (d_f_counter_ptr F) (incr (d_df_counter_ptr F) (counters s)),
       cerr := cerr s @ [(k, Diff_f (d_pimpl F) (iterate s),
                          norm_2 M (Diff_df (d_pimpl F) (iterate s)))]\<rparr>"
  using assms
  by (simp add: Adam_iteration_def DF_df_def DF_eval_f_def DF_f_def Let_def)

lemma Adam_iteration_not_converged:
  assumes "\<not> norm_2 M (Diff_df (d_pimpl F) (iterate s)) < absolute_epsilon cfg"
  shows "\<not> has_converged (Adam_iteration M cfg F k s)"
    and "updates (Adam_iteration M cfg F k s) = Suc (updates s)"
  using assms
  by (simp_all add: Adam_iteration_def DF_df_def DF_eval_f_def DF_f_def Let_def
        split: prod.split)

lemma Adam_iteration_has_converged:
  "has_converged (Adam_iteration M cfg F k s) =
     (norm_2 M (Diff_df (d_pimpl F) (iterate s)) < absolute_epsilon cfg)"
  using Adam_iteration_converged [of M F s cfg k] Adam_iteration_not_converged(1) [of M F s cfg k]
  by (cases "norm_2 M (Diff_df (d_pimpl F) (iterate s)) < absolute_epsilon cfg") simp_all

lemma Adam_iteration_updates:
  "updates (Adam_iteration M cfg F k s) \<le> Suc (updates s)"
  using Adam_iteration_converged [of M F s cfg k] Adam_iteration_not_converged(2) [of M F s cfg k]
  by (cases "norm_2 M (Diff_df (d_pimpl F) (iterate s)) < absolute_epsilon cfg") simp_all

lemma size_t_succ: "k < (m :: size_t) \<Longrightarrow> unat (k + 1) = Suc (unat k)"
  by unat_arith

lemma Adam_loop_updates:
  "updates (Adam_loop M cfg F k s)
     \<le> updates s + (unat (maximimum_iterations cfg) - unat k)"
proof (induction M cfg F k s rule: Adam_loop.induct)
  case (1 M cfg F k s)
  show ?case
  proof (cases "k < maximimum_iterations cfg")
    case False
    then show ?thesis by (simp add: Adam_loop.simps [of M cfg F k s])
  next
    case True
    let ?s1 = "Adam_iteration M cfg F k s"
    have lt: "unat k < unat (maximimum_iterations cfg)"
      using True by (simp add: word_less_nat_alt)
    show ?thesis
    proof (cases "has_converged ?s1")
      case True
      then have "Adam_loop M cfg F k s = ?s1"
        using \<open>k < maximimum_iterations cfg\<close> by (simp add: Adam_loop.simps [of M cfg F k s])
      then show ?thesis
        using Adam_iteration_updates [of M cfg F k s] lt by simp
    next
      case False
      then have eq: "Adam_loop M cfg F k s = Adam_loop M cfg F (k + 1) ?s1"
        using True by (simp add: Adam_loop.simps [of M cfg F k s])
      have "updates (Adam_loop M cfg F (k + 1) ?s1)
              \<le> updates ?s1 + (unat (maximimum_iterations cfg) - unat (k + 1))"
        using "1.IH" True False by simp
      then show ?thesis
        using eq Adam_iteration_updates [of M cfg F k s] lt size_t_succ [OF True]
        by simp
    qed
  qed
qed

lemma Adam_optimize_eq:
  "Adam_optimize M cfg F x h =
     Adam_loop M cfg F 1
       \<lparr>iterate = x, has_converged = False, counters = h, cerr = [],
        m_k = replicate (length x) 0, v_k = replicate (length x) 0, updates = 0\<rparr>"
  by (simp add: Adam_optimize_def Let_def)

text \<open>
  Claim C1. For every configuration and objective, \<^verbatim>\<open>Adam_optimize\<close> executes its update
  block at most \<open>max_iterations - 1\<close> times. With \<open>max_iterations = 1\<close> the loop body never
  runs: the iterate is the one passed in, nothing is evaluated or written, and the
  solver returns false.
\<close>

theorem Adam_optimize_update_steps:
  "updates (Adam_optimize M cfg F x h) \<le> unat (maximimum_iterations cfg) - 1
   \<and> (maximimum_iterations cfg = 1 \<longrightarrow>
        Adam_optimize M cfg F x h =
          \<lparr>iterate = x, has_converged = False, counters = h, cerr = [],
           m_k = replicate (length x) 0, v_k = replicate (length x) 0, updates = 0\<rparr>)"
proof -
  let ?s0 = "\<lparr>iterate = x, has_converged = False, counters = h, cerr = [],
              m_k = replicate (length x) 0, v_k = replicate (length x) 0, updates = 0\<rparr>"
  have "updates (Adam_loop M cfg F 1 ?s0)
          \<le> updates ?s0 + (unat (maximimum_iterations cfg) - unat (1 :: size_t))"
    by (rule Adam_loop_updates)
  then have bound: "updates (Adam_optimize M cfg F x h) \<le> unat (maximimum_iterations cfg) - 1"
    by (simp add: Adam_optimize_eq)
  have "Adam_optimize M cfg F x h = ?s0" if "maximimum_iterations cfg = 1"
    using that by (simp add: Adam_optimize_eq Adam_loop.simps [of M cfg F 1 ?s0])
  with bound show ?thesis by blast
qed



theorem Adam_optimize_update_steps_witness:
  "maximimum_iterations (example_configuration\<lparr>maximimum_iterations := 1\<rparr>) = 1
   \<and> Adam_optimize real_cmath (example_configuration\<lparr>maximimum_iterations := 1\<rparr>)
        example_objective [1] [0, 0]
      = \<lparr>iterate = [1], has_converged = False, counters = [0, 0], cerr = [],
         m_k = [0], v_k = [0], updates = 0\<rparr>
   \<and> updates (Adam_optimize real_cmath (example_configuration\<lparr>maximimum_iterations := 1\<rparr>)
        example_objective [1] [0, 0]) \<le> 0"
  using Adam_optimize_update_steps
    [of real_cmath "example_configuration\<lparr>maximimum_iterations := 1\<rparr>"
        example_objective "[1]" "[0, 0]"]
  by (simp add: example_configuration_def)

lemma valarray_nth:
  "i < length v \<Longrightarrow> scale c v ! i = c * v ! i"
  "i < length v \<Longrightarrow> vsqrt M v ! i = c_sqrt M (v ! i)"
  "i < length v \<Longrightarrow> vadd_scalar v c ! i = v ! i + c"
  "i < length u \<Longrightarrow> i < length v \<Longrightarrow> vadd u v ! i = u ! i + v ! i"
  "i < length u \<Longrightarrow> i < length v \<Longrightarrow> vsub u v ! i = u ! i - v ! i"
  "i < length u \<Longrightarrow> i < length v \<Longrightarrow> vmul u v ! i = u ! i * v ! i"
  "i < length u \<Longrightarrow> i < length v \<Longrightarrow> vdiv u v ! i = u ! i / v ! i"
  by (simp_all add: scale_def vsqrt_def vadd_scalar_def vadd_def vsub_def vmul_def vdiv_def)

lemma valarray_length [simp]:
  "length (scale c v) = length v"
  "length (vsqrt M v) = length v"
  "length (vadd_scalar v c) = length v"
  "length (vadd u v) = min (length u) (length v)"
  "length (vsub u v) = min (length u) (length v)"
  "length (vmul u v) = min (length u) (length v)"
  "length (vdiv u v) = min (length u) (length v)"
  by (simp_all add: scale_def vsqrt_def vadd_scalar_def vadd_def vsub_def vmul_def vdiv_def)

lemma Adam_iteration_update:
  assumes "\<not> norm_2 M (Diff_df (d_pimpl F) (iterate s)) < absolute_epsilon cfg"
  shows "Adam_iteration M cfg F k s =
     (let grad = Diff_df (d_pimpl F) (iterate s);
          m = vadd (scale (beta_1 cfg) (m_k s)) (scale (1 - beta_1 cfg) grad);
          v = vadd (scale (beta_2 cfg) (v_k s)) (vmul (scale (1 - beta_2 cfg) grad) grad);
          hat_m_k = scale (1 / (1 - c_pow M (beta_1 cfg) (unat k))) m;
          hat_v_k = scale (1 / (1 - c_pow M (beta_2 cfg) (unat k))) v
      in s\<lparr>iterate := vsub (iterate s)
                (vdiv (scale (alpha_schedule cfg k) hat_m_k)
                      (vadd_scalar (vsqrt M hat_v_k) (internal_epsilon cfg))),
           has_converged := False,
           counters := (if verbose cfg \<and> k mod 10 = 1
                        then incr (d_f_counter_ptr F) (incr (d_df_counter_ptr F) (counters s))
                        else incr (d_df_counter_ptr F) (counters s)),
           cerr := (if verbose cfg \<and> k mod 10 = 1
                    then cerr s @ [(k, Diff_f (d_pimpl F) (iterate s),
                                    norm_2 M (Diff_df (d_pimpl F) (iterate s)))]
                    else cerr s),
           m_k := m, v_k := v, updates := Suc (updates s)\<rparr>)"
  using assms
  by (simp add: Adam_iteration_def DF_df_def DF_eval_f_def DF_f_def Let_def)

text \<open>
  Claim C4. An iteration of Adam that does not terminate the loop (the gradient norm is
  not below \<^verbatim>\<open>absolute_epsilon\<close>) updates, in every component \<open>i\<close>,
  \<open>m = \<beta>\<^sub>1 m + (1 - \<beta>\<^sub>1) g\<close> and \<open>v = \<beta>\<^sub>2 v + (1 - \<beta>\<^sub>2) g g\<close>, and moves the iterate to
  \<open>x - \<alpha>(k) (m / (1 - \<beta>\<^sub>1\<^sup>k)) / (sqrt (v / (1 - \<beta>\<^sub>2\<^sup>k)) + internal_epsilon)\<close> with the new
  \<open>m\<close> and \<open>v\<close>, where \<open>\<alpha>\<close> is the configured schedule at the iteration index \<open>k\<close>; the
  loop then continues at \<open>k + 1\<close> from that state. The scalars are those of a field (exact
  arithmetic); \<open>sqrt\<close> and the powers are those of \<^verbatim>\<open>cmath\<close>. Every call of
  \<^verbatim>\<open>Adam_optimize\<close> starts the loop at \<open>k = 1\<close> with \<open>m\<close> and \<open>v\<close> the zero vectors of the
  size of the iterate: the moments are not an input of a call.
\<close>

theorem Adam_iteration_update_rule:
  fixes M :: "'a::{field,abs,ord} cmath"
  assumes run: "\<not> norm_2 M (Diff_df (d_pimpl F) (iterate s)) < absolute_epsilon cfg"
    and len: "length (iterate s) = n" "length (m_k s) = n" "length (v_k s) = n"
             "length (Diff_df (d_pimpl F) (iterate s)) = n"
    and i: "i < n"
  shows
  "(let g = Diff_df (d_pimpl F) (iterate s);
        s1 = Adam_iteration M cfg F k s
    in \<not> has_converged s1 \<and> updates s1 = Suc (updates s)
       \<and> length (m_k s1) = n \<and> length (v_k s1) = n \<and> length (iterate s1) = n
       \<and> m_k s1 ! i = beta_1 cfg * m_k s ! i + (1 - beta_1 cfg) * g ! i
       \<and> v_k s1 ! i = beta_2 cfg * v_k s ! i + (1 - beta_2 cfg) * (g ! i * g ! i)
       \<and> iterate s1 ! i =
           iterate s ! i
             - alpha_schedule cfg k * (m_k s1 ! i / (1 - c_pow M (beta_1 cfg) (unat k)))
               / (c_sqrt M (v_k s1 ! i / (1 - c_pow M (beta_2 cfg) (unat k)))
                  + internal_epsilon cfg)
       \<and> (k < maximimum_iterations cfg \<longrightarrow>
            Adam_loop M cfg F k s = Adam_loop M cfg F (k + 1) s1))
   \<and> Adam_optimize M cfg F x h =
       Adam_loop M cfg F 1
         \<lparr>iterate = x, has_converged = False, counters = h, cerr = [],
          m_k = replicate (length x) 0, v_k = replicate (length x) 0, updates = 0\<rparr>"
proof -
  let ?g = "Diff_df (d_pimpl F) (iterate s)"
  let ?s1 = "Adam_iteration M cfg F k s"
  note upd = Adam_iteration_update [OF run, of k]
  have nc: "\<not> has_converged ?s1" and up: "updates ?s1 = Suc (updates s)"
    by (simp_all add: upd Let_def)
  have lens: "length (m_k ?s1) = n" "length (v_k ?s1) = n" "length (iterate ?s1) = n"
    using len by (simp_all add: upd Let_def)
  have m: "m_k ?s1 ! i = beta_1 cfg * m_k s ! i + (1 - beta_1 cfg) * ?g ! i"
    using len i by (simp add: upd Let_def valarray_nth)
  have v: "v_k ?s1 ! i = beta_2 cfg * v_k s ! i + (1 - beta_2 cfg) * (?g ! i * ?g ! i)"
    using len i by (simp add: upd Let_def valarray_nth mult.assoc)
  have mk: "m_k ?s1 = vadd (scale (beta_1 cfg) (m_k s)) (scale (1 - beta_1 cfg) ?g)"
    and vk: "v_k ?s1 = vadd (scale (beta_2 cfg) (v_k s))
                         (vmul (scale (1 - beta_2 cfg) ?g) ?g)"
    by (simp_all add: upd Let_def)
  have x: "iterate ?s1 ! i =
           iterate s ! i
             - alpha_schedule cfg k * (m_k ?s1 ! i / (1 - c_pow M (beta_1 cfg) (unat k)))
               / (c_sqrt M (v_k ?s1 ! i / (1 - c_pow M (beta_2 cfg) (unat k)))
                  + internal_epsilon cfg)"
    unfolding mk vk
    using len i by (simp add: upd Let_def valarray_nth)
  have loop: "Adam_loop M cfg F k s = Adam_loop M cfg F (k + 1) ?s1"
    if "k < maximimum_iterations cfg"
    using that nc by (simp add: Adam_loop.simps [of M cfg F k s])
  show ?thesis
    using nc up lens m v x loop by (simp add: Let_def Adam_optimize_eq)
qed



theorem Adam_iteration_update_rule_witness:
  "(\<not> norm_2 real_cmath (Diff_df (d_pimpl example_objective) [1])
        < absolute_epsilon example_configuration
    \<and> length (Diff_df (d_pimpl example_objective) [1]) = 1 \<and> (0 :: nat) < 1
    \<and> (1 :: size_t) < maximimum_iterations example_configuration)
   \<and> m_k (Adam_iteration real_cmath example_configuration example_objective 1
        \<lparr>iterate = [1], has_converged = False, counters = [], cerr = [],
         m_k = [0], v_k = [0], updates = 0\<rparr>) ! 0 = 1
   \<and> v_k (Adam_iteration real_cmath example_configuration example_objective 1
        \<lparr>iterate = [1], has_converged = False, counters = [], cerr = [],
         m_k = [0], v_k = [0], updates = 0\<rparr>) ! 0 = 2
   \<and> iterate (Adam_iteration real_cmath example_configuration example_objective 1
        \<lparr>iterate = [1], has_converged = False, counters = [], cerr = [],
         m_k = [0], v_k = [0], updates = 0\<rparr>) ! 0 = 1 / 5"
proof -
  let ?s = "\<lparr>iterate = [1 :: real], has_converged = False, counters = [], cerr = [],
             m_k = [0 :: real], v_k = [0 :: real], updates = 0\<rparr>"
  have g: "Diff_df (d_pimpl example_objective) [1] = [2]"
    by (simp add: example_objective_def Differentiable_Function_of_def Impl_def
          sum_of_squares_def)
  have n: "norm_2 real_cmath [2] = 2"
    by (simp add: norm_2_def squared_norm_2_def real_cmath_def)
  have hyps:
    "\<not> norm_2 real_cmath (Diff_df (d_pimpl example_objective) (iterate ?s))
        < absolute_epsilon example_configuration"
    "length (iterate ?s) = 1" "length (m_k ?s) = 1" "length (v_k ?s) = 1"
    "length (Diff_df (d_pimpl example_objective) (iterate ?s)) = 1" "(0 :: nat) < 1"
    by (simp_all add: g n example_configuration_def)
  have lt: "(1 :: size_t) < maximimum_iterations example_configuration"
    by (simp add: example_configuration_def)
  show ?thesis
    using hyps lt
      Adam_iteration_update_rule [OF hyps, of 1 "[1]" "[]"]
    by (simp add: g n Let_def example_configuration_def real_cmath_def)
qed

lemma Adam_loop_converged:
  "has_converged (Adam_loop M cfg F k s) \<Longrightarrow> \<not> has_converged s \<Longrightarrow>
   k < maximimum_iterations cfg
   \<and> norm_2 M (Diff_df (d_pimpl F) (iterate (Adam_loop M cfg F k s))) < absolute_epsilon cfg"
proof (induction M cfg F k s rule: Adam_loop.induct)
  case (1 M cfg F k s)
  have lt: "k < maximimum_iterations cfg"
  proof (rule ccontr)
    assume "\<not> k < maximimum_iterations cfg"
    then have "Adam_loop M cfg F k s = s"
      by (simp add: Adam_loop.simps [of M cfg F k s])
    with "1.prems" show False by simp
  qed
  let ?s1 = "Adam_iteration M cfg F k s"
  show ?case
  proof (cases "has_converged ?s1")
    case True
    then have eq: "Adam_loop M cfg F k s = ?s1"
      using lt by (simp add: Adam_loop.simps [of M cfg F k s])
    have conv: "norm_2 M (Diff_df (d_pimpl F) (iterate s)) < absolute_epsilon cfg"
      using True by (simp add: Adam_iteration_has_converged)
    have "iterate ?s1 = iterate s"
      by (simp add: Adam_iteration_converged [OF conv])
    with eq conv lt show ?thesis by simp
  next
    case False
    then have eq: "Adam_loop M cfg F k s = Adam_loop M cfg F (k + 1) ?s1"
      using lt by (simp add: Adam_loop.simps [of M cfg F k s])
    have "k + 1 < maximimum_iterations cfg
          \<and> norm_2 M (Diff_df (d_pimpl F) (iterate (Adam_loop M cfg F (k + 1) ?s1)))
              < absolute_epsilon cfg"
      using "1.IH" [OF lt refl False] "1.prems" False eq by simp
    with eq lt show ?thesis by simp
  qed
qed

lemma Adam_optimize_converged:
  assumes "has_converged (Adam_optimize M cfg F x h)"
  shows "1 < maximimum_iterations cfg"
    and "norm_2 M (Diff_df (d_pimpl F) (iterate (Adam_optimize M cfg F x h)))
           < absolute_epsilon cfg"
  using assms Adam_loop_converged [of M cfg F 1
      "\<lparr>iterate = x, has_converged = False, counters = h, cerr = [],
        m_k = replicate (length x) 0, v_k = replicate (length x) 0, updates = 0\<rparr>"]
  by (simp_all add: Adam_optimize_eq)

lemma Adam_optimize_at_converged_iterate:
  assumes "1 < maximimum_iterations cfg"
    and "norm_2 M (Diff_df (d_pimpl F) x) < absolute_epsilon cfg"
  shows "Adam_optimize M cfg F x h =
     \<lparr>iterate = x, has_converged = True,
      counters = incr (d_f_counter_ptr F) (incr (d_df_counter_ptr F) h),
      cerr = [(1, Diff_f (d_pimpl F) x, norm_2 M (Diff_df (d_pimpl F) x))],
      m_k = replicate (length x) 0, v_k = replicate (length x) 0, updates = 0\<rparr>"
proof -
  let ?s0 = "\<lparr>iterate = x, has_converged = False, counters = h, cerr = [],
              m_k = replicate (length x) 0, v_k = replicate (length x) 0, updates = 0\<rparr>"
  have "Adam_iteration M cfg F 1 ?s0 =
          \<lparr>iterate = x, has_converged = True,
           counters = incr (d_f_counter_ptr F) (incr (d_df_counter_ptr F) h),
           cerr = [(1, Diff_f (d_pimpl F) x, norm_2 M (Diff_df (d_pimpl F) x))],
           m_k = replicate (length x) 0, v_k = replicate (length x) 0, updates = 0\<rparr>"
    using Adam_iteration_converged [of M F ?s0 cfg 1] assms(2) by simp
  then show ?thesis
    using assms(1) by (simp add: Adam_optimize_eq Adam_loop.simps [of M cfg F 1 ?s0])
qed


section \<open>Properties of the root finders\<close>

lemma spec_iterate_converged:
  "fst (spec_iterate delta epsilon n x)
     = (\<exists>i<n. \<bar>delta (((\<lambda>y. y + delta y) ^^ i) x)\<bar> < epsilon)"
proof (induction n arbitrary: x)
  case 0
  then show ?case by simp
next
  case (Suc n)
  let ?step = "\<lambda>y. y + delta y"
  show ?case
  proof (cases "\<bar>delta x\<bar> < epsilon")
    case True
    then have "\<bar>delta ((?step ^^ 0) x)\<bar> < epsilon" by simp
    then have "\<exists>i<Suc n. \<bar>delta ((?step ^^ i) x)\<bar> < epsilon" by blast
    with True show ?thesis by (simp add: Let_def)
  next
    case False
    have "(\<exists>i<Suc n. \<bar>delta ((?step ^^ i) x)\<bar> < epsilon)
            = (\<exists>j<n. \<bar>delta ((?step ^^ j) (?step x))\<bar> < epsilon)"
    proof
      assume "\<exists>i<Suc n. \<bar>delta ((?step ^^ i) x)\<bar> < epsilon"
      then obtain i where i: "i < Suc n" "\<bar>delta ((?step ^^ i) x)\<bar> < epsilon" by blast
      with False obtain j where "i = Suc j" by (cases i) auto
      with i have "j < n" "\<bar>delta ((?step ^^ j) (?step x))\<bar> < epsilon"
        by (simp_all add: funpow_Suc_right del: funpow.simps)
      then show "\<exists>j<n. \<bar>delta ((?step ^^ j) (?step x))\<bar> < epsilon" by blast
    next
      assume "\<exists>j<n. \<bar>delta ((?step ^^ j) (?step x))\<bar> < epsilon"
      then obtain j where "j < n" "\<bar>delta ((?step ^^ j) (?step x))\<bar> < epsilon" by blast
      then have "Suc j < Suc n" "\<bar>delta ((?step ^^ Suc j) x)\<bar> < epsilon"
        by (simp_all add: funpow_Suc_right del: funpow.simps)
      then show "\<exists>i<Suc n. \<bar>delta ((?step ^^ i) x)\<bar> < epsilon" by blast
    qed
    moreover obtain c y its where sp: "spec_iterate delta epsilon n (x + delta x) = (c, y, its)"
      by (cases "spec_iterate delta epsilon n (x + delta x)") auto
    moreover have "fst (spec_iterate delta epsilon (Suc n) x) = c"
      using False sp by (simp add: Let_def)
    ultimately show ?thesis
      using Suc.IH [of "x + delta x"] by simp
  qed
qed

lemma spec_iterate_iterations:
  "snd (snd (spec_iterate delta epsilon n x)) \<le> n"
proof (induction n arbitrary: x)
  case 0
  then show ?case by simp
next
  case (Suc n)
  show ?case
    using Suc.IH [of "x + delta x"] by (auto simp: Let_def split: prod.split)
qed

lemma Newton_iteration_eq:
  "Newton_iteration F epsilon iter s =
     \<lparr>iterate = iterate s + spec_Newton_delta F (iterate s),
      has_converged = (\<bar>spec_Newton_delta F (iterate s)\<bar> < epsilon),
      counters = incr (d_df_counter_ptr F) (incr (d_f_counter_ptr F) (counters s)),
      cerr = cerr s @ [(iter, iterate s + spec_Newton_delta F (iterate s),
                        fst (Diff_f_df (d_pimpl F) (iterate s)))]\<rparr>"
  by (simp add: Newton_iteration_def spec_Newton_delta_def DF_f_df_def Let_def
        split: prod.split)

lemma size_t_succ_le:
  "unat (k :: size_t) \<le> unat (m :: size_t) \<Longrightarrow> unat m < 2 ^ 64 - 1 \<Longrightarrow>
   unat (k + 1) = Suc (unat k)"
proof -
  assume "unat k \<le> unat m" "unat m < 2 ^ 64 - 1"
  then have "unat k + unat (1 :: size_t) < 2 ^ LENGTH(64)"
    by simp
  then have "unat (k + 1) = unat k + unat (1 :: size_t)"
    by (simp only: unat_add_lem)
  then show ?thesis by simp
qed

lemma Newton_loop_refines:
  assumes "unat iter + n = Suc (unat max_iter)" and "unat max_iter < 2 ^ 64 - 1"
  shows "\<exists>r. Newton_loop F epsilon max_iter iter s = Some r
     \<and> root_result
          (if n = 0 then has_converged s
           else fst (spec_iterate (spec_Newton_delta F) epsilon n (iterate s)))
          (spec_iterate (spec_Newton_delta F) epsilon n (iterate s))
          (incr (d_df_counter_ptr F) \<circ> incr (d_f_counter_ptr F)) s r"
  using assms
proof (induction n arbitrary: iter s)
  case 0
  then have "\<not> iter \<le> max_iter"
    by (simp add: word_le_nat_alt)
  then have "Newton_loop F epsilon max_iter iter s = Some s"
    by (simp add: Newton_loop.simps [of F epsilon max_iter iter s])
  then show ?case by (simp add: root_result_def)
next
  case (Suc n)
  let ?s1 = "Newton_iteration F epsilon iter s"
  let ?d = "spec_Newton_delta F (iterate s)"
  let ?count = "incr (d_df_counter_ptr F) \<circ> incr (d_f_counter_ptr F)"
  have le: "iter \<le> max_iter"
    using Suc.prems by (simp add: word_le_nat_alt)
  have s1: "iterate ?s1 = iterate s + ?d" "has_converged ?s1 = (\<bar>?d\<bar> < epsilon)"
    "counters ?s1 = ?count (counters s)"
    "length (cerr ?s1) = Suc (length (cerr s))"
    by (simp_all add: Newton_iteration_eq)
  show ?case
  proof (cases "\<bar>?d\<bar> < epsilon")
    case True
    then have "Newton_loop F epsilon max_iter iter s = Some ?s1"
      using le s1 by (simp add: Newton_loop.simps [of F epsilon max_iter iter s])
    moreover have "spec_iterate (spec_Newton_delta F) epsilon (Suc n) (iterate s)
                     = (True, iterate s + ?d, 1)"
      using True by (simp add: Let_def)
    ultimately show ?thesis
      using True s1 by (simp add: root_result_def)
  next
    case False
    then have eq: "Newton_loop F epsilon max_iter iter s
                     = Newton_loop F epsilon max_iter (iter + 1) ?s1"
      using le s1 by (simp add: Newton_loop.simps [of F epsilon max_iter iter s])
    have "unat (iter + 1) = Suc (unat iter)"
      using Suc.prems by (intro size_t_succ_le [of iter max_iter]) simp_all
    then have "unat (iter + 1) + n = Suc (unat max_iter)"
      using Suc.prems by simp
    note IH = Suc.IH [OF this Suc.prems(2), of ?s1]
    obtain c y its where
      sp: "spec_iterate (spec_Newton_delta F) epsilon n (iterate ?s1) = (c, y, its)"
      by (cases "spec_iterate (spec_Newton_delta F) epsilon n (iterate ?s1)") auto
    from IH [unfolded sp fst_conv] obtain r where r1: "Newton_loop F epsilon max_iter (iter + 1) ?s1 = Some r"
      and r3: "root_result (if n = 0 then has_converged ?s1 else c) (c, y, its) ?count ?s1 r"
      by blast
    have r2: "has_converged r = (if n = 0 then has_converged ?s1 else c)"
      using r3 by (simp add: root_result_def)
    have sp_Suc: "spec_iterate (spec_Newton_delta F) epsilon (Suc n) (iterate s)
                    = (c, y, Suc its)"
      using sp False s1 by (simp add: Let_def)
    have c0: "c = False" if "n = 0"
      using sp that by simp
    have conv: "has_converged r = c"
      using r2 c0 s1 False by (cases "n = 0") simp_all
    have "root_result c (c, y, Suc its) ?count s r"
      using r3 s1 conv by (simp add: root_result_def funpow_swap1)
    then show ?thesis
      unfolding eq r1 sp_Suc by (simp add: o_def)
  qed
qed


lemma Steffensen_iteration_eq:
  fixes F :: "('a::{ring,inverse,abs,ord}, 'a) Function"
  shows "Steffensen_iteration F epsilon iter s =
     \<lparr>iterate = iterate s + spec_Steffensen_delta F (iterate s),
      has_converged = (\<bar>spec_Steffensen_delta F (iterate s)\<bar> < epsilon),
      counters = incr (f_counter_ptr F) (incr (f_counter_ptr F) (counters s)),
      cerr = cerr s @ [(iter, iterate s + spec_Steffensen_delta F (iterate s),
                        Interface_f (pimpl F) (iterate s))]\<rparr>"
  by (simp add: Steffensen_iteration_def spec_Steffensen_delta_def Function_f_def Let_def)

lemma Steffensen_loop_refines:
  fixes F :: "('a::{ring,inverse,abs,ord}, 'a) Function"
  assumes "unat iter + n = Suc (unat max_iter)" and "unat max_iter < 2 ^ 64 - 1"
  shows "\<exists>r. Steffensen_loop F epsilon max_iter iter s = Some r
     \<and> root_result
          (if n = 0 then has_converged s
           else fst (spec_iterate (spec_Steffensen_delta F) epsilon n (iterate s)))
          (spec_iterate (spec_Steffensen_delta F) epsilon n (iterate s))
          (incr (f_counter_ptr F) \<circ> incr (f_counter_ptr F)) s r"
  using assms
proof (induction n arbitrary: iter s)
  case 0
  then have "\<not> iter \<le> max_iter"
    by (simp add: word_le_nat_alt)
  then have "Steffensen_loop F epsilon max_iter iter s = Some s"
    by (simp add: Steffensen_loop.simps [of F epsilon max_iter iter s])
  then show ?case by (simp add: root_result_def)
next
  case (Suc n)
  let ?s1 = "Steffensen_iteration F epsilon iter s"
  let ?d = "spec_Steffensen_delta F (iterate s)"
  let ?count = "incr (f_counter_ptr F) \<circ> incr (f_counter_ptr F)"
  have le: "iter \<le> max_iter"
    using Suc.prems by (simp add: word_le_nat_alt)
  have s1: "iterate ?s1 = iterate s + ?d" "has_converged ?s1 = (\<bar>?d\<bar> < epsilon)"
    "counters ?s1 = ?count (counters s)"
    "length (cerr ?s1) = Suc (length (cerr s))"
    by (simp_all add: Steffensen_iteration_eq)
  show ?case
  proof (cases "\<bar>?d\<bar> < epsilon")
    case True
    then have "Steffensen_loop F epsilon max_iter iter s = Some ?s1"
      using le s1 by (simp add: Steffensen_loop.simps [of F epsilon max_iter iter s])
    moreover have "spec_iterate (spec_Steffensen_delta F) epsilon (Suc n) (iterate s)
                     = (True, iterate s + ?d, 1)"
      using True by (simp add: Let_def)
    ultimately show ?thesis
      using True s1 by (simp add: root_result_def)
  next
    case False
    then have eq: "Steffensen_loop F epsilon max_iter iter s
                     = Steffensen_loop F epsilon max_iter (iter + 1) ?s1"
      using le s1 by (simp add: Steffensen_loop.simps [of F epsilon max_iter iter s])
    have "unat (iter + 1) = Suc (unat iter)"
      using Suc.prems by (intro size_t_succ_le [of iter max_iter]) simp_all
    then have "unat (iter + 1) + n = Suc (unat max_iter)"
      using Suc.prems by simp
    note IH = Suc.IH [OF this Suc.prems(2), of ?s1]
    obtain c y its where
      sp: "spec_iterate (spec_Steffensen_delta F) epsilon n (iterate ?s1) = (c, y, its)"
      by (cases "spec_iterate (spec_Steffensen_delta F) epsilon n (iterate ?s1)") auto
    from IH [unfolded sp fst_conv] obtain r where r1: "Steffensen_loop F epsilon max_iter (iter + 1) ?s1 = Some r"
      and r3: "root_result (if n = 0 then has_converged ?s1 else c) (c, y, its) ?count ?s1 r"
      by blast
    have r2: "has_converged r = (if n = 0 then has_converged ?s1 else c)"
      using r3 by (simp add: root_result_def)
    have sp_Suc: "spec_iterate (spec_Steffensen_delta F) epsilon (Suc n) (iterate s)
                    = (c, y, Suc its)"
      using sp False s1 by (simp add: Let_def)
    have c0: "c = False" if "n = 0"
      using sp that by simp
    have conv: "has_converged r = c"
      using r2 c0 s1 False by (cases "n = 0") simp_all
    have "root_result c (c, y, Suc its) ?count s r"
      using r3 s1 conv by (simp add: root_result_def funpow_swap1)
    then show ?thesis
      unfolding eq r1 sp_Suc by (simp add: o_def)
  qed
qed


lemma length_funpow_incr [simp]:
  "length (((incr q \<circ> incr p) ^^ n) h) = length h"
  by (induction n) simp_all

lemma funpow_incr_other:
  "p \<noteq> Some b \<Longrightarrow> q \<noteq> Some b \<Longrightarrow> ((incr q \<circ> incr p) ^^ n) h ! b = h ! b"
  by (induction n) (simp_all add: incr_nth_other)

lemma funpow_incr_both:
  assumes "a < length h" "b < length h" "a \<noteq> b"
  shows "((incr (Some b) \<circ> incr (Some a)) ^^ n) h ! a = h ! a + of_nat n"
    and "((incr (Some b) \<circ> incr (Some a)) ^^ n) h ! b = h ! b + of_nat n"
  using assms
  by (induction n) (simp_all add: incr_nth_other incr_nth_same)

lemma funpow_incr_twice:
  assumes "a < length h"
  shows "((incr (Some a) \<circ> incr (Some a)) ^^ n) h ! a = h ! a + of_nat (2 * n)"
  using assms
  by (induction n) (simp_all add: incr_nth_same)

lemma Newton_refines:
  fixes F :: "('a::{plus,uminus,inverse,abs,ord}, 'a, 'a) Differentiable_Function"
  assumes "unat max_iter < 2 ^ 64 - 1"
  shows "\<exists>r. Newton F x epsilon max_iter h = Some r
     \<and> has_converged r = fst (spec_iterate (spec_Newton_delta F) epsilon (unat max_iter) x)
     \<and> iterate r = fst (snd (spec_iterate (spec_Newton_delta F) epsilon (unat max_iter) x))
     \<and> length (cerr r)
         = snd (snd (spec_iterate (spec_Newton_delta F) epsilon (unat max_iter) x))
     \<and> counters r
         = ((incr (d_df_counter_ptr F) \<circ> incr (d_f_counter_ptr F)) ^^ length (cerr r)) h"
proof -
  let ?s0 = "\<lparr>iterate = x, has_converged = False, counters = h, cerr = []\<rparr> :: 'a root_state"
  have "unat (1 :: size_t) + unat max_iter = Suc (unat max_iter)"
    by simp
  from Newton_loop_refines [OF this assms, of F epsilon ?s0]
  obtain r where r: "Newton_loop F epsilon max_iter 1 ?s0 = Some r"
    "root_result
       (if unat max_iter = 0 then has_converged ?s0
        else fst (spec_iterate (spec_Newton_delta F) epsilon (unat max_iter) (iterate ?s0)))
       (spec_iterate (spec_Newton_delta F) epsilon (unat max_iter) (iterate ?s0))
       (incr (d_df_counter_ptr F) \<circ> incr (d_f_counter_ptr F)) ?s0 r"
    by blast
  have "has_converged r = fst (spec_iterate (spec_Newton_delta F) epsilon (unat max_iter) x)"
    using r(2) by (cases "unat max_iter = 0") (simp_all add: root_result_def)
  then show ?thesis
    using r by (simp add: Newton_def root_result_def)
qed

lemma Steffensen_refines:
  fixes F :: "('a::{ring,inverse,abs,ord}, 'a) Function"
  assumes "unat max_iter < 2 ^ 64 - 1"
  shows "\<exists>r. Steffensen F x epsilon max_iter h = Some r
     \<and> has_converged r
         = fst (spec_iterate (spec_Steffensen_delta F) epsilon (unat max_iter) x)
     \<and> iterate r
         = fst (snd (spec_iterate (spec_Steffensen_delta F) epsilon (unat max_iter) x))
     \<and> length (cerr r)
         = snd (snd (spec_iterate (spec_Steffensen_delta F) epsilon (unat max_iter) x))
     \<and> counters r
         = ((incr (f_counter_ptr F) \<circ> incr (f_counter_ptr F)) ^^ length (cerr r)) h"
proof -
  let ?s0 = "\<lparr>iterate = x, has_converged = False, counters = h, cerr = []\<rparr> :: 'a root_state"
  have "unat (1 :: size_t) + unat max_iter = Suc (unat max_iter)"
    by simp
  from Steffensen_loop_refines [OF this assms, of F epsilon ?s0]
  obtain r where r: "Steffensen_loop F epsilon max_iter 1 ?s0 = Some r"
    "root_result
       (if unat max_iter = 0 then has_converged ?s0
        else fst (spec_iterate (spec_Steffensen_delta F) epsilon (unat max_iter) (iterate ?s0)))
       (spec_iterate (spec_Steffensen_delta F) epsilon (unat max_iter) (iterate ?s0))
       (incr (f_counter_ptr F) \<circ> incr (f_counter_ptr F)) ?s0 r"
    by blast
  have "has_converged r = fst (spec_iterate (spec_Steffensen_delta F) epsilon (unat max_iter) x)"
    using r(2) by (cases "unat max_iter = 0") (simp_all add: root_result_def)
  then show ?thesis
    using r by (simp add: Steffensen_def root_result_def)
qed

text \<open>
  The cap that the refinement excludes: with \<^verbatim>\<open>max_iter\<close> the largest \<^verbatim>\<open>size_t\<close> the test
  \<^verbatim>\<open>iter <= max_iter\<close> never fails, and on an objective whose step is never below
  \<open>epsilon\<close> neither solver returns.
\<close>

lemma Newton_loop_Some_stops:
  fixes F :: "('a::{plus,uminus,inverse,abs,ord}, 'a, 'a) Differentiable_Function"
  assumes "Newton_loop F epsilon max_iter iter s = Some r"
  shows "\<not> (max_iter = - 1 \<and> (\<forall>y. \<not> \<bar>spec_Newton_delta F y\<bar> < epsilon))"
proof (rule Newton_loop.raw_induct
    [where P = "\<lambda>(F :: ('a, 'a, 'a) Differentiable_Function) epsilon max_iter iter s r.
                  \<not> (max_iter = - 1 \<and> (\<forall>y. \<not> \<bar>spec_Newton_delta F y\<bar> < epsilon))",
     OF _ assms])
  fix loop and F :: "('a, 'a, 'a) Differentiable_Function" and epsilon max_iter iter s r
  assume IH: "\<And>F epsilon max_iter iter s r. loop F epsilon max_iter iter s = Some r \<Longrightarrow>
                \<not> (max_iter = - 1 \<and> (\<forall>y. \<not> \<bar>spec_Newton_delta F y\<bar> < epsilon))"
    and body: "(if iter \<le> max_iter
                then let s1 = Newton_iteration F epsilon iter s
                     in if has_converged s1 then Some s1
                        else loop F epsilon max_iter (iter + 1) s1
                else Some s) = Some r"
  show "\<not> (max_iter = - 1 \<and> (\<forall>y. \<not> \<bar>spec_Newton_delta F y\<bar> < epsilon))"
  proof
    assume a: "max_iter = - 1 \<and> (\<forall>y. \<not> \<bar>spec_Newton_delta F y\<bar> < epsilon)"
    have le: "iter \<le> max_iter"
      using a by simp
    have nc: "\<not> has_converged (Newton_iteration F epsilon iter s)"
      using a by (simp add: Newton_iteration_eq)
    have "loop F epsilon max_iter (iter + 1) (Newton_iteration F epsilon iter s) = Some r"
      using body le nc by (simp add: Let_def)
    from IH [OF this] a show False ..
  qed
qed

lemma Newton_may_not_return:
  assumes "\<forall>y. \<not> \<bar>spec_Newton_delta F y\<bar> < epsilon"
  shows "Newton F x epsilon (- 1) h = None"
proof (cases "Newton F x epsilon (- 1) h")
  case None
  then show ?thesis .
next
  case (Some r)
  then have False
    using Newton_loop_Some_stops [of F epsilon "- 1"] assms by (auto simp add: Newton_def)
  then show ?thesis ..
qed

lemma Steffensen_loop_Some_stops:
  fixes F :: "('a::{ring,inverse,abs,ord}, 'a) Function"
  assumes "Steffensen_loop F epsilon max_iter iter s = Some r"
  shows "\<not> (max_iter = - 1 \<and> (\<forall>y. \<not> \<bar>spec_Steffensen_delta F y\<bar> < epsilon))"
proof (rule Steffensen_loop.raw_induct
    [where P = "\<lambda>(F :: ('a, 'a) Function) epsilon max_iter iter s r.
                  \<not> (max_iter = - 1 \<and> (\<forall>y. \<not> \<bar>spec_Steffensen_delta F y\<bar> < epsilon))",
     OF _ assms])
  fix loop and F :: "('a, 'a) Function" and epsilon max_iter iter s r
  assume IH: "\<And>F epsilon max_iter iter s r. loop F epsilon max_iter iter s = Some r \<Longrightarrow>
                \<not> (max_iter = - 1 \<and> (\<forall>y. \<not> \<bar>spec_Steffensen_delta F y\<bar> < epsilon))"
    and body: "(if iter \<le> max_iter
                then let s1 = Steffensen_iteration F epsilon iter s
                     in if has_converged s1 then Some s1
                        else loop F epsilon max_iter (iter + 1) s1
                else Some s) = Some r"
  show "\<not> (max_iter = - 1 \<and> (\<forall>y. \<not> \<bar>spec_Steffensen_delta F y\<bar> < epsilon))"
  proof
    assume a: "max_iter = - 1 \<and> (\<forall>y. \<not> \<bar>spec_Steffensen_delta F y\<bar> < epsilon)"
    have le: "iter \<le> max_iter"
      using a by simp
    have nc: "\<not> has_converged (Steffensen_iteration F epsilon iter s)"
      using a by (simp add: Steffensen_iteration_eq)
    have "loop F epsilon max_iter (iter + 1) (Steffensen_iteration F epsilon iter s) = Some r"
      using body le nc by (simp add: Let_def)
    from IH [OF this] a show False ..
  qed
qed

lemma Steffensen_may_not_return:
  fixes F :: "('a::{ring,inverse,abs,ord}, 'a) Function"
  assumes "\<forall>y. \<not> \<bar>spec_Steffensen_delta F y\<bar> < epsilon"
  shows "Steffensen F x epsilon (- 1) h = None"
proof (cases "Steffensen F x epsilon (- 1) h")
  case None
  then show ?thesis .
next
  case (Some r)
  then have False
    using Steffensen_loop_Some_stops [of F epsilon "- 1"] assms by (auto simp add: Steffensen_def)
  then show ?thesis ..
qed

subsection \<open>Newton\<close>

text \<open>
  Claim C2. Newton works on the caller's scalar iterate. Each iteration evaluates
  \<open>(f, df)\<close> with \<^verbatim>\<open>f_df\<close> at \<open>x\<close>, computes \<open>delta = - f / df\<close>, updates \<open>x\<close> to \<open>x + delta\<close> and
  sets the flag to \<open>\<bar>delta\<bar> < epsilon\<close>. With an iteration cap below the largest
  \<^verbatim>\<open>size_t\<close> the run returns, and it returns what the specified policy computes for that
  cap: true with the iterate after the first iteration whose step was below \<open>epsilon\<close>
  when there is one within the cap, false with the iterate after all the iterations of the cap
  otherwise. One line is written and both counters are incremented per iteration. The
  default arguments are \<open>epsilon = 1e-10\<close> and a cap of 20 iterations.
\<close>

theorem Newton_refines_specification:
  fixes F :: "('a::{plus,uminus,inverse,abs,ord}, 'a, 'a) Differentiable_Function"
    and G :: "('b::{plus,uminus,inverse,abs,ord,numeral,power}, 'b, 'b) Differentiable_Function"
  assumes cap: "unat max_iter < 2 ^ 64 - 1"
  shows
  "(\<exists>r. Newton F x epsilon max_iter h = Some r
      \<and> (has_converged r, iterate r, length (cerr r))
          = spec_iterate (spec_Newton_delta F) epsilon (unat max_iter) x
      \<and> has_converged r
          = (\<exists>i<unat max_iter.
               \<bar>spec_Newton_delta F (((\<lambda>y. y + spec_Newton_delta F y) ^^ i) x)\<bar> < epsilon)
      \<and> length (cerr r) \<le> unat max_iter
      \<and> counters r
          = ((incr (d_df_counter_ptr F) \<circ> incr (d_f_counter_ptr F)) ^^ length (cerr r)) h
      \<and> (d_f_counter_ptr F = Some a \<and> d_df_counter_ptr F = Some b
          \<and> a < length h \<and> b < length h \<and> a \<noteq> b \<longrightarrow>
            counters r ! a = h ! a + of_nat (length (cerr r))
            \<and> counters r ! b = h ! b + of_nat (length (cerr r))))
   \<and> Newton_iteration F epsilon iter s =
       (case Diff_f_df (d_pimpl F) (iterate s) of
          (f, df) \<Rightarrow>
            \<lparr>iterate = iterate s + - f / df,
             has_converged = (\<bar>- f / df\<bar> < epsilon),
             counters = incr (d_df_counter_ptr F) (incr (d_f_counter_ptr F) (counters s)),
             cerr = cerr s @ [(iter, iterate s + - f / df, f)]\<rparr>)
   \<and> Newton_default G y h = Newton G y (1 / 10 ^ 10) 20 h"
proof -
  let ?sp = "spec_iterate (spec_Newton_delta F) epsilon (unat max_iter) x"
  from Newton_refines [OF cap, of F x epsilon h]
  obtain r where r: "Newton F x epsilon max_iter h = Some r"
    "has_converged r = fst ?sp" "iterate r = fst (snd ?sp)" "length (cerr r) = snd (snd ?sp)"
    "counters r
       = ((incr (d_df_counter_ptr F) \<circ> incr (d_f_counter_ptr F)) ^^ length (cerr r)) h"
    by blast
  have tuple: "(has_converged r, iterate r, length (cerr r)) = ?sp"
    using r(2,3,4) by (simp add: prod_eq_iff)
  have conv: "has_converged r
          = (\<exists>i<unat max_iter.
               \<bar>spec_Newton_delta F (((\<lambda>y. y + spec_Newton_delta F y) ^^ i) x)\<bar> < epsilon)"
    using r(2) by (simp only: spec_iterate_converged)
  have len: "length (cerr r) \<le> unat max_iter"
    using r(4) spec_iterate_iterations [of "spec_Newton_delta F" epsilon "unat max_iter" x]
    by simp
  have cnt: "counters r ! a = h ! a + of_nat (length (cerr r))
             \<and> counters r ! b = h ! b + of_nat (length (cerr r))"
    if "d_f_counter_ptr F = Some a \<and> d_df_counter_ptr F = Some b
        \<and> a < length h \<and> b < length h \<and> a \<noteq> b"
    using that r(5) funpow_incr_both [of a h b "length (cerr r)"] by simp
  have body: "Newton_iteration F epsilon iter s =
       (case Diff_f_df (d_pimpl F) (iterate s) of
          (f, df) \<Rightarrow>
            \<lparr>iterate = iterate s + - f / df,
             has_converged = (\<bar>- f / df\<bar> < epsilon),
             counters = incr (d_df_counter_ptr F) (incr (d_f_counter_ptr F) (counters s)),
             cerr = cerr s @ [(iter, iterate s + - f / df, f)]\<rparr>)"
    by (simp add: Newton_iteration_def DF_f_df_def Let_def split: prod.split)
  have dflt: "Newton_default G y h = Newton G y (1 / 10 ^ 10) 20 h"
    by (simp add: Newton_default_def)
  from r(1) tuple conv len r(5) cnt
  have "\<exists>r. Newton F x epsilon max_iter h = Some r
      \<and> (has_converged r, iterate r, length (cerr r)) = ?sp
      \<and> has_converged r
          = (\<exists>i<unat max_iter.
               \<bar>spec_Newton_delta F (((\<lambda>y. y + spec_Newton_delta F y) ^^ i) x)\<bar> < epsilon)
      \<and> length (cerr r) \<le> unat max_iter
      \<and> counters r
          = ((incr (d_df_counter_ptr F) \<circ> incr (d_f_counter_ptr F)) ^^ length (cerr r)) h
      \<and> (d_f_counter_ptr F = Some a \<and> d_df_counter_ptr F = Some b
          \<and> a < length h \<and> b < length h \<and> a \<noteq> b \<longrightarrow>
            counters r ! a = h ! a + of_nat (length (cerr r))
            \<and> counters r ! b = h ! b + of_nat (length (cerr r)))"
    by blast
  with body dflt show ?thesis by blast
qed

lemma square_root_2_f_df:
  "Diff_f_df (d_pimpl counted_square_root_2) x = (x * x - 2, 2 * x)"
  by (simp add: counted_square_root_2_def square_root_2_def DF_initialize_counter_eq
        Differentiable_Function_of_def Impl_def square_root_def)

theorem Newton_refines_specification_witness:
  "unat (20 :: size_t) < 2 ^ 64 - 1
   \<and> (\<exists>r. Newton_default counted_square_root_2 2 [0, 0] = Some r
         \<and> has_converged r \<and> iterate r = 886731088897 / 627013566048
         \<and> length (cerr r) = 5 \<and> counters r = [5, 5])"
proof -
  have cap: "unat (20 :: size_t) < 2 ^ 64 - 1"
    by simp
  have u: "unat (20 :: size_t) = 20"
    by simp
  have sp: "spec_iterate (spec_Newton_delta counted_square_root_2) (1 / 10000000000) 20 2
              = (True, 886731088897 / 627013566048, 5)"
    by (simp add: eval_nat_numeral spec_Newton_delta_def square_root_2_f_df Let_def)
  have ptr: "d_f_counter_ptr counted_square_root_2 = Some 0"
    "d_df_counter_ptr counted_square_root_2 = Some 1"
    by (simp_all add: counted_square_root_2_def DF_initialize_counter_eq)
  have cnt: "((incr (Some (Suc 0)) \<circ> incr (Some 0)) ^^ 5) [0, 0] = [5, 5]"
    by (simp add: eval_nat_numeral incr_def)
  show ?thesis
    using cap
      Newton_refines_specification
        [OF cap, where F = counted_square_root_2 and x = 2 and epsilon = "1 / 10 ^ 10"
            and h = "[0, 0]" and a = 0 and b = 1 and iter = 1
            and s = "\<lparr>iterate = 2, has_converged = False, counters = [0, 0], cerr = []\<rparr>"
            and G = counted_square_root_2 and y = 2]
    by (auto simp add: u sp ptr cnt Newton_default_def)
qed

subsection \<open>Steffensen\<close>

text \<open>
  Claim C3. Each iteration of Steffensen evaluates \<open>f\<close> at \<open>x\<close> and then \<open>g\<close> at \<open>x + f\<close>,
  both with the plain \<^verbatim>\<open>Function\<close>, computes \<open>delta = - f\<^sup>2 / (g - f)\<close>, updates \<open>x\<close> to
  \<open>x + delta\<close> and sets the flag to \<open>\<bar>delta\<bar> < epsilon\<close>; the run follows the same policy as
  Newton (true on convergence within the cap, false when the cap is exhausted). It
  increments only the value counter of its \<^verbatim>\<open>Function\<close>, twice per iteration executed,
  and no other cell: run on the downgrade of a differentiable function, it leaves the
  derivative counter as it was. The scalars are those of a ring with a division, where
  the program's \<^verbatim>\<open>(-f) * f\<close> is \<open>- f\<^sup>2\<close>.
\<close>

theorem Steffensen_refines_specification:
  fixes F :: "('a::{ring,inverse,abs,ord}, 'a) Function"
    and D :: "('a, 'a, 'g) Differentiable_Function"
    and G :: "('b::{plus,minus,uminus,times,inverse,abs,ord,numeral,power}, 'b) Function"
  assumes cap: "unat max_iter < 2 ^ 64 - 1"
  shows
  "(\<exists>r. Steffensen F x epsilon max_iter h = Some r
      \<and> (has_converged r, iterate r, length (cerr r))
          = spec_iterate (spec_Steffensen_delta F) epsilon (unat max_iter) x
      \<and> has_converged r
          = (\<exists>i<unat max_iter.
               \<bar>spec_Steffensen_delta F (((\<lambda>y. y + spec_Steffensen_delta F y) ^^ i) x)\<bar>
                 < epsilon)
      \<and> length (cerr r) \<le> unat max_iter
      \<and> counters r
          = ((incr (f_counter_ptr F) \<circ> incr (f_counter_ptr F)) ^^ length (cerr r)) h
      \<and> length (counters r) = length h
      \<and> (\<forall>b. f_counter_ptr F \<noteq> Some b \<longrightarrow> counters r ! b = h ! b)
      \<and> (f_counter_ptr F = Some a \<and> a < length h \<longrightarrow>
            counters r ! a = h ! a + of_nat (2 * length (cerr r))))
   \<and> (d_df_counter_ptr D \<noteq> d_f_counter_ptr D \<longrightarrow>
        (\<exists>r. Steffensen (as_function D) x epsilon max_iter h = Some r
           \<and> DF_df_counter D (counters r) = DF_df_counter D h))
   \<and> Steffensen_iteration F epsilon iter s =
       (let f = Interface_f (pimpl F) (iterate s);
            g = Interface_f (pimpl F) (iterate s + f)
        in \<lparr>iterate = iterate s + - (f * f) / (g - f),
            has_converged = (\<bar>- (f * f) / (g - f)\<bar> < epsilon),
            counters = incr (f_counter_ptr F) (incr (f_counter_ptr F) (counters s)),
            cerr = cerr s @ [(iter, iterate s + - (f * f) / (g - f), f)]\<rparr>)
   \<and> Steffensen_default G y k = Steffensen G y (1 / 10 ^ 10) 20 k"
proof -
  have run: "\<exists>r. Steffensen F x epsilon max_iter h = Some r
      \<and> (has_converged r, iterate r, length (cerr r))
          = spec_iterate (spec_Steffensen_delta F) epsilon (unat max_iter) x
      \<and> has_converged r
          = (\<exists>i<unat max_iter.
               \<bar>spec_Steffensen_delta F (((\<lambda>y. y + spec_Steffensen_delta F y) ^^ i) x)\<bar>
                 < epsilon)
      \<and> length (cerr r) \<le> unat max_iter
      \<and> counters r
          = ((incr (f_counter_ptr F) \<circ> incr (f_counter_ptr F)) ^^ length (cerr r)) h
      \<and> length (counters r) = length h
      \<and> (\<forall>b. f_counter_ptr F \<noteq> Some b \<longrightarrow> counters r ! b = h ! b)
      \<and> (f_counter_ptr F = Some a \<and> a < length h \<longrightarrow>
            counters r ! a = h ! a + of_nat (2 * length (cerr r)))"
    for F :: "('a, 'a) Function" and a
  proof -
    let ?sp = "spec_iterate (spec_Steffensen_delta F) epsilon (unat max_iter) x"
    from Steffensen_refines [OF cap, of F x epsilon h]
    obtain r where r: "Steffensen F x epsilon max_iter h = Some r"
      "has_converged r = fst ?sp" "iterate r = fst (snd ?sp)"
      "length (cerr r) = snd (snd ?sp)"
      "counters r
         = ((incr (f_counter_ptr F) \<circ> incr (f_counter_ptr F)) ^^ length (cerr r)) h"
      by blast
    have tuple: "(has_converged r, iterate r, length (cerr r)) = ?sp"
      using r(2,3,4) by (simp add: prod_eq_iff)
    have conv: "has_converged r
          = (\<exists>i<unat max_iter.
               \<bar>spec_Steffensen_delta F (((\<lambda>y. y + spec_Steffensen_delta F y) ^^ i) x)\<bar>
                 < epsilon)"
      using r(2) by (simp only: spec_iterate_converged)
    have len: "length (cerr r) \<le> unat max_iter"
      using r(4)
        spec_iterate_iterations [of "spec_Steffensen_delta F" epsilon "unat max_iter" x]
      by simp
    have same: "length (counters r) = length h"
      using r(5) by simp
    have other: "\<forall>b. f_counter_ptr F \<noteq> Some b \<longrightarrow> counters r ! b = h ! b"
      using r(5) by (simp add: funpow_incr_other)
    have twice: "counters r ! a = h ! a + of_nat (2 * length (cerr r))"
      if "f_counter_ptr F = Some a \<and> a < length h"
      using that r(5) funpow_incr_twice [of a h "length (cerr r)"] by simp
    from r(1) tuple conv len r(5) same other twice show ?thesis
      by blast
  qed
  have deriv: "\<exists>r. Steffensen (as_function D) x epsilon max_iter h = Some r
           \<and> DF_df_counter D (counters r) = DF_df_counter D h"
    if "d_df_counter_ptr D \<noteq> d_f_counter_ptr D"
  proof -
    from run [of "as_function D" 0]
    obtain r where r: "Steffensen (as_function D) x epsilon max_iter h = Some r"
      "\<forall>b. f_counter_ptr (as_function D) \<noteq> Some b \<longrightarrow> counters r ! b = h ! b"
      by blast
    have "DF_df_counter D (counters r) = DF_df_counter D h"
      using r(2) that
      by (cases "d_df_counter_ptr D")
         (auto simp add: DF_df_counter_def read_counter_def as_function_def
            to_function_type_def)
    with r(1) show ?thesis by blast
  qed
  have body: "Steffensen_iteration F epsilon iter s =
       (let f = Interface_f (pimpl F) (iterate s);
            g = Interface_f (pimpl F) (iterate s + f)
        in \<lparr>iterate = iterate s + - (f * f) / (g - f),
            has_converged = (\<bar>- (f * f) / (g - f)\<bar> < epsilon),
            counters = incr (f_counter_ptr F) (incr (f_counter_ptr F) (counters s)),
            cerr = cerr s @ [(iter, iterate s + - (f * f) / (g - f), f)]\<rparr>)"
    by (simp add: Steffensen_iteration_def Function_f_def Let_def)
  have dflt: "Steffensen_default G y k = Steffensen G y (1 / 10 ^ 10) 20 k"
    by (simp add: Steffensen_default_def)
  from run [of F a] deriv body dflt show ?thesis
    by blast
qed

lemma square_root_2_f:
  "Interface_f (pimpl (as_function counted_square_root_2)) x = x * x - 2"
  by (simp add: counted_square_root_2_def square_root_2_def DF_initialize_counter_eq
        Differentiable_Function_of_def Impl_def square_root_def as_function_def
        to_function_type_def)

theorem Steffensen_refines_specification_witness:
  "(unat (20 :: size_t) < 2 ^ 64 - 1
    \<and> f_counter_ptr (as_function counted_square_root_2) = Some 0
    \<and> 0 < length [0, 0 :: size_t]
    \<and> f_counter_ptr (as_function counted_square_root_2) \<noteq> Some 1
    \<and> d_df_counter_ptr counted_square_root_2 \<noteq> d_f_counter_ptr counted_square_root_2)
   \<and> (\<exists>r. Steffensen (as_function counted_square_root_2) 2 (1 / 100) 20 [0, 0] = Some r
         \<and> has_converged r \<and> length (cerr r) = 4 \<and> counters r ! 0 = 8
         \<and> counters r ! 1 = 0)"
proof -
  let ?F = "as_function counted_square_root_2"
  have cap: "unat (20 :: size_t) < 2 ^ 64 - 1"
    by simp
  have u: "unat (20 :: size_t) = 20"
    by simp
  have sp: "fst (spec_iterate (spec_Steffensen_delta ?F) (1 / 100) 20 2)
            \<and> snd (snd (spec_iterate (spec_Steffensen_delta ?F) (1 / 100) 20 2)) = 4"
    by (simp add: eval_nat_numeral spec_Steffensen_delta_def square_root_2_f Let_def)
  have ptr: "f_counter_ptr ?F = Some 0" "f_counter_ptr ?F \<noteq> Some 1"
    "d_df_counter_ptr counted_square_root_2 \<noteq> d_f_counter_ptr counted_square_root_2"
    by (simp_all add: counted_square_root_2_def DF_initialize_counter_eq as_function_def
          to_function_type_def)
  from Steffensen_refines_specification
        [OF cap, where F = ?F and x = 2 and epsilon = "1 / 100"
            and h = "[0, 0]" and a = 0 and D = counted_square_root_2 and iter = 1
            and s = "\<lparr>iterate = 2, has_converged = False, counters = [0, 0], cerr = []\<rparr>"
            and G = ?F and y = 2 and k = "[0, 0]"]
  obtain r where r: "Steffensen ?F 2 (1 / 100) 20 [0, 0] = Some r"
    "(has_converged r, iterate r, length (cerr r))
       = spec_iterate (spec_Steffensen_delta ?F) (1 / 100) (unat (20 :: size_t)) 2"
    "\<forall>b. f_counter_ptr ?F \<noteq> Some b \<longrightarrow> counters r ! b = [0, 0] ! b"
    "f_counter_ptr ?F = Some 0 \<and> 0 < length [0, 0 :: size_t] \<longrightarrow>
       counters r ! 0 = [0, 0] ! 0 + of_nat (2 * length (cerr r))"
    by blast
  have "has_converged r" "length (cerr r) = 4"
    using r(2) sp unfolding u by (metis fst_conv, metis snd_conv)
  moreover have "counters r ! 1 = 0"
    using r(3) ptr(2) by simp
  moreover have "counters r ! 0 = 8"
    using r(4) ptr(1) \<open>length (cerr r) = 4\<close> by simp
  ultimately show ?thesis
    using cap ptr r(1) by simp
qed

section \<open>Running a solver again from a converged iterate\<close>

lemma square_root_0_simps:
  "Diff_f_df (d_pimpl square_root_0) x = (x * x, 2 * x)"
  "Interface_f (pimpl (as_function square_root_0)) x = x * x"
  "d_f_counter_ptr square_root_0 = None" "d_df_counter_ptr square_root_0 = None"
  "f_counter_ptr (as_function square_root_0) = None"
  by (simp_all add: square_root_0_def Differentiable_Function_of_def Impl_def square_root_def
        as_function_def to_function_type_def)

lemma square_root_minus_half_f_df:
  "Diff_f_df (d_pimpl square_root_minus_half) x = (x * x + 1 / 2, 2 * x)"
  "d_f_counter_ptr square_root_minus_half = None"
  "d_df_counter_ptr square_root_minus_half = None"
  by (simp_all add: square_root_minus_half_def Differentiable_Function_of_def Impl_def
        square_root_def)

lemma spec_iterate_first:
  assumes "0 < n"
  shows "(fst (spec_iterate delta epsilon n x) \<and> snd (snd (spec_iterate delta epsilon n x)) = 1)
           = (\<bar>delta x\<bar> < epsilon)"
    and "\<bar>delta x\<bar> < epsilon \<Longrightarrow> fst (snd (spec_iterate delta epsilon n x)) = x + delta x"
proof -
  obtain m where n: "n = Suc m"
    using assms by (cases n) auto
  have zero: "\<not> (fst (spec_iterate delta epsilon k z)
                  \<and> snd (snd (spec_iterate delta epsilon k z)) = 0)" for k z
    by (cases k) (auto simp: Let_def split: prod.split)
  show "(fst (spec_iterate delta epsilon n x) \<and> snd (snd (spec_iterate delta epsilon n x)) = 1)
           = (\<bar>delta x\<bar> < epsilon)"
    using zero [of m "x + delta x"] unfolding n
    by (auto simp: Let_def split: prod.split)
  show "\<bar>delta x\<bar> < epsilon \<Longrightarrow> fst (snd (spec_iterate delta epsilon n x)) = x + delta x"
    unfolding n by (simp add: Let_def)
qed

text \<open>
  Claim C7 states that every solver, run again from an already converged iterate with the
  same configuration, detects convergence on iteration 1, returns true and does not move
  the iterate. Newton adds the step to the iterate before it leaves the loop, and the
  step at the new iterate need not be below \<open>epsilon\<close>. Two objectives, both with
  \<open>epsilon = 1\<close>:
  \<^item> \<open>x \<mapsto> x * x\<close>, cap 20: the run from 1 converges to \<open>1 / 2\<close>; the run from \<open>1 / 2\<close>
    converges on iteration 1 and moves the iterate to \<open>1 / 4\<close>.
  \<^item> \<open>x \<mapsto> x * x + 1 / 2\<close>: the run from 1 converges to \<open>1 / 4\<close> on iteration 1. The step at
    \<open>1 / 4\<close> is \<open>- 9 / 8\<close>, so the run from \<open>1 / 4\<close> does not converge on iteration 1: with
    the cap 1 it returns false and leaves \<open>- 7 / 8\<close>, and with the cap 20 it converges on
    iteration 2 and leaves \<open>- 17 / 112\<close>.
\<close>

theorem rerun_not_idempotent_counterexample:
  "Newton square_root_0 1 1 20 []
     = Some \<lparr>iterate = 1 / 2, has_converged = True, counters = [], cerr = [(1, 1 / 2, 1)]\<rparr>
   \<and> Newton square_root_0 (1 / 2) 1 20 []
     = Some \<lparr>iterate = 1 / 4, has_converged = True, counters = [],
             cerr = [(1, 1 / 4, 1 / 4)]\<rparr>
   \<and> (1 / 4 :: rat) \<noteq> 1 / 2
   \<and> Newton square_root_minus_half 1 1 1 []
     = Some \<lparr>iterate = 1 / 4, has_converged = True, counters = [],
             cerr = [(1, 1 / 4, 3 / 2)]\<rparr>
   \<and> Newton square_root_minus_half (1 / 4) 1 1 []
     = Some \<lparr>iterate = - 7 / 8, has_converged = False, counters = [],
             cerr = [(1, - 7 / 8, 9 / 16)]\<rparr>
   \<and> Newton square_root_minus_half 1 1 20 []
     = Some \<lparr>iterate = 1 / 4, has_converged = True, counters = [],
             cerr = [(1, 1 / 4, 3 / 2)]\<rparr>
   \<and> Newton square_root_minus_half (1 / 4) 1 20 []
     = Some \<lparr>iterate = - 17 / 112, has_converged = True, counters = [],
             cerr = [(1, - 7 / 8, 9 / 16), (2, - 17 / 112, 81 / 64)]\<rparr>"
proof -
  have cap: "\<not> (2 :: size_t) \<le> 1"
    by (simp add: word_le_nat_alt)
  show ?thesis
    by (simp add: Newton_def Newton_loop.simps [of _ _ _ 1] Newton_loop.simps [of _ _ _ 2]
          Newton_iteration_def DF_f_df_def square_root_0_simps square_root_minus_half_f_df
          incr_def Let_def cap)
qed

text \<open>
  Claim C7, amended. Adam, run again from the iterate of a converged run with the same
  configuration and objective, converges on iteration 1, returns true and leaves the
  iterate unchanged (it evaluates the gradient once, writes its line and updates
  nothing). Newton and Steffensen, run from an iterate \<open>x\<close> with a cap of at least one
  iteration (and below the largest \<^verbatim>\<open>size_t\<close>), return, and they converge on iteration 1
  exactly when the step \<open>delta\<close> computed at \<open>x\<close> is below \<open>epsilon\<close>; they then return true
  with the iterate \<open>x + delta\<close>, which in exact arithmetic (the scalars of a ring) is \<open>x\<close>
  exactly when \<open>delta\<close> is zero.
\<close>

theorem rerun_from_converged_iterate:
  fixes M :: "'a::{zero,one,plus,minus,times,inverse,abs,ord} cmath"
    and F :: "('b::{plus,uminus,inverse,abs,ord}, 'b, 'b) Differentiable_Function"
    and G :: "('c::{ring,inverse,abs,ord}, 'c) Function"
    and N :: "('d::{ring,inverse,abs,ord}, 'd, 'd) Differentiable_Function"
  assumes cap: "1 \<le> unat max_iter" "unat max_iter < 2 ^ 64 - 1"
  shows
  "(has_converged (Adam_optimize M cfg A x0 h0) \<longrightarrow>
      Adam_optimize M cfg A (iterate (Adam_optimize M cfg A x0 h0)) h
        = \<lparr>iterate = iterate (Adam_optimize M cfg A x0 h0), has_converged = True,
           counters = incr (d_f_counter_ptr A) (incr (d_df_counter_ptr A) h),
           cerr = [(1, Diff_f (d_pimpl A) (iterate (Adam_optimize M cfg A x0 h0)),
                    norm_2 M (Diff_df (d_pimpl A) (iterate (Adam_optimize M cfg A x0 h0))))],
           m_k = replicate (length (iterate (Adam_optimize M cfg A x0 h0))) 0,
           v_k = replicate (length (iterate (Adam_optimize M cfg A x0 h0))) 0,
           updates = 0\<rparr>)
   \<and> (\<exists>r. Newton F x epsilon max_iter h = Some r
         \<and> ((has_converged r \<and> length (cerr r) = 1) = (\<bar>spec_Newton_delta F x\<bar> < epsilon))
         \<and> (\<bar>spec_Newton_delta F x\<bar> < epsilon \<longrightarrow> iterate r = x + spec_Newton_delta F x))
   \<and> (\<exists>r. Newton N z e max_iter h = Some r
         \<and> ((has_converged r \<and> length (cerr r) = 1) = (\<bar>spec_Newton_delta N z\<bar> < e))
         \<and> (\<bar>spec_Newton_delta N z\<bar> < e \<longrightarrow>
               iterate r = z + spec_Newton_delta N z
               \<and> (iterate r = z) = (spec_Newton_delta N z = 0)))
   \<and> (\<exists>r. Steffensen G y eps max_iter h = Some r
         \<and> ((has_converged r \<and> length (cerr r) = 1) = (\<bar>spec_Steffensen_delta G y\<bar> < eps))
         \<and> (\<bar>spec_Steffensen_delta G y\<bar> < eps \<longrightarrow>
               iterate r = y + spec_Steffensen_delta G y
               \<and> (iterate r = y) = (spec_Steffensen_delta G y = 0)))"
proof -
  have pos: "0 < unat max_iter"
    using cap(1) by simp
  have adam: "Adam_optimize M cfg A (iterate (Adam_optimize M cfg A x0 h0)) h
        = \<lparr>iterate = iterate (Adam_optimize M cfg A x0 h0), has_converged = True,
           counters = incr (d_f_counter_ptr A) (incr (d_df_counter_ptr A) h),
           cerr = [(1, Diff_f (d_pimpl A) (iterate (Adam_optimize M cfg A x0 h0)),
                    norm_2 M (Diff_df (d_pimpl A) (iterate (Adam_optimize M cfg A x0 h0))))],
           m_k = replicate (length (iterate (Adam_optimize M cfg A x0 h0))) 0,
           v_k = replicate (length (iterate (Adam_optimize M cfg A x0 h0))) 0,
           updates = 0\<rparr>"
    if "has_converged (Adam_optimize M cfg A x0 h0)"
    using Adam_optimize_converged [OF that]
    by (rule Adam_optimize_at_converged_iterate)
  have newton: "\<exists>r. Newton F x epsilon max_iter h = Some r
         \<and> ((has_converged r \<and> length (cerr r) = 1) = (\<bar>spec_Newton_delta F x\<bar> < epsilon))
         \<and> (\<bar>spec_Newton_delta F x\<bar> < epsilon \<longrightarrow> iterate r = x + spec_Newton_delta F x)"
    for F :: "('e::{plus,uminus,inverse,abs,ord}, 'e, 'e) Differentiable_Function"
      and x epsilon
  proof -
    from Newton_refines [OF cap(2), of F x epsilon h]
    obtain r where r: "Newton F x epsilon max_iter h = Some r"
      "has_converged r = fst (spec_iterate (spec_Newton_delta F) epsilon (unat max_iter) x)"
      "iterate r = fst (snd (spec_iterate (spec_Newton_delta F) epsilon (unat max_iter) x))"
      "length (cerr r)
         = snd (snd (spec_iterate (spec_Newton_delta F) epsilon (unat max_iter) x))"
      by blast
    show ?thesis
      using r spec_iterate_first
          [OF pos, where delta = "spec_Newton_delta F" and epsilon = epsilon and x = x]
      by simp
  qed
  have newton_ring: "\<exists>r. Newton N z e max_iter h = Some r
         \<and> ((has_converged r \<and> length (cerr r) = 1) = (\<bar>spec_Newton_delta N z\<bar> < e))
         \<and> (\<bar>spec_Newton_delta N z\<bar> < e \<longrightarrow>
               iterate r = z + spec_Newton_delta N z
               \<and> (iterate r = z) = (spec_Newton_delta N z = 0))"
    using newton [of N z e] by auto
  from Steffensen_refines [OF cap(2), of G y eps h]
  obtain q where q: "Steffensen G y eps max_iter h = Some q"
    "has_converged q = fst (spec_iterate (spec_Steffensen_delta G) eps (unat max_iter) y)"
    "iterate q = fst (snd (spec_iterate (spec_Steffensen_delta G) eps (unat max_iter) y))"
    "length (cerr q)
       = snd (snd (spec_iterate (spec_Steffensen_delta G) eps (unat max_iter) y))"
    by blast
  have steffensen: "\<exists>r. Steffensen G y eps max_iter h = Some r
         \<and> ((has_converged r \<and> length (cerr r) = 1) = (\<bar>spec_Steffensen_delta G y\<bar> < eps))
         \<and> (\<bar>spec_Steffensen_delta G y\<bar> < eps \<longrightarrow>
               iterate r = y + spec_Steffensen_delta G y
               \<and> (iterate r = y) = (spec_Steffensen_delta G y = 0))"
    using q spec_iterate_first
        [OF pos, where delta = "spec_Steffensen_delta G" and epsilon = eps and x = y]
    by simp
  from adam newton [of F x epsilon] newton_ring steffensen show ?thesis
    by blast
qed

lemma example_objective_simps:
  "Diff_df (d_pimpl example_objective) x = map (\<lambda>a. 2 * a) x"
  "Diff_f (d_pimpl example_objective) x = sum_list (map (\<lambda>a. a * a) x)"
  "d_f_counter_ptr example_objective = None" "d_df_counter_ptr example_objective = None"
  by (simp_all add: example_objective_def Differentiable_Function_of_def Impl_def
        sum_of_squares_def)

lemma sqrt_4_25: "sqrt (4 / 25) = 2 / 5"
  using real_sqrt_abs [of "2 / 5"] by (simp add: power2_eq_square)

lemma example_run:
  "Adam_optimize real_cmath example_configuration example_objective [1] []
     = \<lparr>iterate = [1 / 5], has_converged = True, counters = [],
        cerr = [(2, 1 / 25, 2 / 5)], m_k = [1], v_k = [2], updates = 1\<rparr>"
  by (simp add: Adam_optimize_eq Adam_loop.simps [of _ _ _ 1] Adam_loop.simps [of _ _ _ 2]
        Adam_iteration_def DF_df_def DF_eval_f_def DF_f_def
        example_objective_simps example_configuration_def real_cmath_def
        norm_2_def squared_norm_2_def incr_def Let_def sqrt_4_25 power2_eq_square
        scale_def vadd_def vsub_def vmul_def vdiv_def vsqrt_def vadd_scalar_def)

theorem rerun_from_converged_iterate_witness:
  "(1 \<le> unat (20 :: size_t) \<and> unat (20 :: size_t) < 2 ^ 64 - 1)
   \<and> (has_converged
         (Adam_optimize real_cmath example_configuration example_objective [1] [])
       \<and> iterate (Adam_optimize real_cmath example_configuration example_objective [1] [])
           = [1 / 5]
       \<and> has_converged
           (Adam_optimize real_cmath example_configuration example_objective [1 / 5] [])
       \<and> iterate (Adam_optimize real_cmath example_configuration example_objective [1 / 5] [])
           = [1 / 5]
       \<and> updates (Adam_optimize real_cmath example_configuration example_objective [1 / 5] [])
           = 0)
   \<and> (\<bar>spec_Newton_delta square_root_0 (1 / 2)\<bar> < 1
       \<and> (\<exists>r. Newton square_root_0 (1 / 2) 1 20 [] = Some r
             \<and> has_converged r \<and> length (cerr r) = 1 \<and> iterate r = 1 / 4
             \<and> iterate r \<noteq> 1 / 2))
   \<and> (\<bar>spec_Steffensen_delta (as_function square_root_0) (3 / 2)\<bar> < 1
       \<and> (\<exists>r. Steffensen (as_function square_root_0) (3 / 2) 1 20 [] = Some r
             \<and> has_converged r \<and> length (cerr r) = 1 \<and> iterate r = 15 / 14))"
proof -
  have cap: "1 \<le> unat (20 :: size_t)" "unat (20 :: size_t) < 2 ^ 64 - 1"
    by simp_all
  have nd: "spec_Newton_delta square_root_0 (1 / 2) = - 1 / 4"
    by (simp add: spec_Newton_delta_def square_root_0_simps)
  have sd: "spec_Steffensen_delta (as_function square_root_0) (3 / 2) = - 3 / 7"
    by (simp add: spec_Steffensen_delta_def square_root_0_simps Let_def)
  show ?thesis
    using cap
      rerun_from_converged_iterate
        [OF cap, where M = real_cmath and cfg = example_configuration
            and A = example_objective and ?x0.0 = "[1]" and ?h0.0 = "[]" and h = "[]"
            and F = square_root_0 and x = "1 / 2" and epsilon = 1
            and N = square_root_0 and z = "1 / 2" and e = 1
            and G = "as_function square_root_0" and y = "3 / 2" and eps = 1]
    by (auto simp add: example_run nd sd)
qed

end
